theory Spec2Isabelle
  imports Complex_Main "HOL-Library.Char_ord" "HOL-Library.List_Lexorder" "HOL-Library.Sublist"
begin

section \<open>JavaScript values as the state core sees them\<close>

text \<open>
  A JavaScript number is \<open>NaN\<close>, an infinity or a finite value. Finite doubles are
  rationals, and the state core only compares them and takes a maximum, so finite
  numbers are modelled by \<open>rat\<close> (\<open>-0\<close> and \<open>+0\<close> coincide, as they do under \<open>===\<close>).
\<close>

datatype jsnum = NaN | PosInf | NegInf | Fin rat

text \<open>
  An atom is a value that is not an array: a primitive, or a reference \<open>JRef n\<close> to some
  other object (a plain object, or an array nested inside an array), which the code only
  ever tests with \<open>typeof\<close>, truthiness and \<open>===\<close>. A field value is an atom or an
  array of atoms. Strings are lists of 8-bit characters, read as the code units
  U+0000 to U+00FF.
\<close>

datatype jsatom = JUndefined | JNull | JBool bool | JNum jsnum | JStr string | JRef nat

datatype jsval = Atom jsatom | JArr "jsatom list"

type_synonym jsobj = "string \<rightharpoonup> jsval"

text \<open>
  A function argument that is meant to be an object: \<open>Obj m\<close> is an object with the own
  enumerable properties \<open>m\<close> (an array is the object of its indices); \<open>NotObj\<close> is
  \<open>undefined\<close>, \<open>null\<close> or a primitive. A key bound to \<open>undefined\<close> is present, as it is
  for \<open>in\<close> and \<open>Object.keys\<close>; no schema key is inherited from \<open>Object.prototype\<close>, so
  \<open>'k' in o\<close> is \<open>o k \<noteq> None\<close>.
\<close>

datatype jsarg = NotObj | Obj jsobj

abbreviation jsUndefined :: jsval where "jsUndefined \<equiv> Atom JUndefined"
abbreviation jsNull :: jsval where "jsNull \<equiv> Atom JNull"
abbreviation jsBool :: "bool \<Rightarrow> jsval" where "jsBool b \<equiv> Atom (JBool b)"
abbreviation jsNumber :: "rat \<Rightarrow> jsval" where "jsNumber r \<equiv> Atom (JNum (Fin r))"
abbreviation jsStr :: "string \<Rightarrow> jsval" where "jsStr s \<equiv> Atom (JStr s)"
abbreviation jsStrArr :: "string list \<Rightarrow> jsval" where "jsStrArr xs \<equiv> JArr (map JStr xs)"

text \<open>Property read \<open>o.k\<close>: a missing key reads as \<open>undefined\<close>.\<close>

definition getProp :: "jsobj \<Rightarrow> string \<Rightarrow> jsval" where
  "getProp obj k = (case obj k of None \<Rightarrow> jsUndefined | Some v \<Rightarrow> v)"

text \<open>Truthiness, as tested by \<open>!x\<close>, \<open>x && y\<close> and \<open>if (x)\<close>.\<close>

fun truthyAtom :: "jsatom \<Rightarrow> bool" where
  "truthyAtom JUndefined = False"
| "truthyAtom JNull = False"
| "truthyAtom (JBool b) = b"
| "truthyAtom (JNum n) = (n \<noteq> NaN \<and> n \<noteq> Fin 0)"
| "truthyAtom (JStr s) = (s \<noteq> [])"
| "truthyAtom (JRef n) = True"

fun truthy :: "jsval \<Rightarrow> bool" where
  "truthy (Atom a) = truthyAtom a"
| "truthy (JArr xs) = True"

text \<open>
  Strict equality \<open>a === b\<close> on atoms: \<open>NaN\<close> is not equal to itself, references are
  equal when they are the same reference.
\<close>

definition strictEqAtom :: "jsatom \<Rightarrow> jsatom \<Rightarrow> bool" where
  "strictEqAtom a b = (a = b \<and> a \<noteq> JNum NaN)"

text \<open>\<open>Number.isFinite(v)\<close>: no coercion, only a finite number passes.\<close>

fun isFiniteNumber :: "jsval \<Rightarrow> bool" where
  "isFiniteNumber (Atom (JNum (Fin r))) = True"
| "isFiniteNumber _ = False"

text \<open>\<open>a ?? b\<close>.\<close>

definition nullish :: "jsval \<Rightarrow> bool" where
  "nullish v = (v = jsNull \<or> v = jsUndefined)"

definition nullishCoalesce :: "jsval \<Rightarrow> jsval \<Rightarrow> jsval" where
  "nullishCoalesce a b = (if nullish a then b else a)"

section \<open>String helpers\<close>

definition isWhitespace :: "char \<Rightarrow> bool" where
  "isWhitespace c = (of_char c \<in> {9, 10, 11, 12, 13, 32, 160 :: nat})"

definition trim :: "string \<Rightarrow> string" where
  "trim s = rev (dropWhile isWhitespace (rev (dropWhile isWhitespace s)))"

definition toLowerChar :: "char \<Rightarrow> char" where
  "toLowerChar c =
     (let n = of_char c :: nat
      in if (65 \<le> n \<and> n \<le> 90) \<or> (192 \<le> n \<and> n \<le> 222 \<and> n \<noteq> 215)
         then char_of (n + 32) else c)"

definition toLowerCase :: "string \<Rightarrow> string" where
  "toLowerCase s = map toLowerChar s"

text \<open>\<open>s.replace(/^p/, '')\<close> for a literal prefix \<open>p\<close>.\<close>

definition stripPrefix :: "string \<Rightarrow> string \<Rightarrow> string" where
  "stripPrefix p s = (if prefix p s then drop (length p) s else s)"

text \<open>\<open>raw.replace(/^https?:\/\//, '')\<close>.\<close>

definition stripProtocol :: "string \<Rightarrow> string" where
  "stripProtocol s =
     (if prefix ''https://'' s then drop 8 s
      else if prefix ''http://'' s then drop 7 s
      else s)"

text \<open>\<open>s.split(c)[0]\<close>.\<close>

definition splitFirst :: "char \<Rightarrow> string \<Rightarrow> string" where
  "splitFirst c s = takeWhile (\<lambda>x. x \<noteq> c) s"

text \<open>\<open>s.includes(p)\<close>.\<close>

fun includesStr :: "string \<Rightarrow> string \<Rightarrow> bool" where
  "includesStr [] p = (p = [])"
| "includesStr (c # cs) p = (prefix p (c # cs) \<or> includesStr cs p)"

text \<open>The character class \<open>[a-z0-9.-]\<close>.\<close>

definition isHostChar :: "char \<Rightarrow> bool" where
  "isHostChar c =
     (let n = of_char c :: nat
      in (97 \<le> n \<and> n \<le> 122) \<or> (48 \<le> n \<and> n \<le> 57) \<or> c = CHR ''.'' \<or> c = CHR ''-'')"

section \<open>State core: schema and normalization (state_core.js)\<close>

definition DEFAULT_DISTRACTING_SITES :: "string list" where
  "DEFAULT_DISTRACTING_SITES =
     [''youtube.com'', ''facebook.com'', ''twitter.com'', ''x.com'', ''instagram.com'',
      ''reddit.com'', ''tiktok.com'', ''netflix.com'', ''spotify.com'', ''soundcloud.com'',
      ''vnexpress.net'', ''dantri.com.vn'', ''cafef.vn'']"

definition DEFAULT_DEEPWORK_BLOCKED_SITES :: "string list" where
  "DEFAULT_DEEPWORK_BLOCKED_SITES = [''discord.com'', ''messenger.com'', ''whatsapp.com'']"

definition DEFAULT_STATE :: "(string \<times> jsval) list" where
  "DEFAULT_STATE =
     [(''currentTask'', jsStr ''''),
      (''isInFlow'', jsBool False),
      (''intentGateEnabled'', jsBool True),
      (''breakReminderEnabled'', jsBool False),
      (''mindfulnessReminderEnabled'', jsBool False),
      (''hasSeenOnboarding'', jsBool False),
      (''distractingSites'', jsStrArr DEFAULT_DISTRACTING_SITES),
      (''deepWorkBlockedSites'', jsStrArr DEFAULT_DEEPWORK_BLOCKED_SITES),
      (''reminderStartTime'', jsNull),
      (''reminderInterval'', jsNull),
      (''reminderExpectedEndTime'', jsNull),
      (''mindfulnessLastShownAt'', jsNull),
      (''exerciseReminderEnabled'', jsBool True),
      (''exerciseIntervalMs'', jsNull),
      (''exerciseExpectedAt'', jsNull),
      (''exerciseRemainingMs'', jsNull),
      (''exerciseStatsDate'', jsNull),
      (''exerciseStatsPushUps'', jsNumber 0),
      (''exerciseStatsSitUps'', jsNumber 0),
      (''exerciseStatsSquats'', jsNumber 0)]"

definition getDefaultState :: jsobj where
  "getDefaultState = map_of DEFAULT_STATE"

fun normalizeBoolean :: "jsval \<Rightarrow> jsval \<Rightarrow> jsval" where
  "normalizeBoolean (Atom (JBool b)) fallback = Atom (JBool b)"
| "normalizeBoolean _ fallback = fallback"

fun normalizeString :: "jsval \<Rightarrow> jsval \<Rightarrow> jsval" where
  "normalizeString (Atom (JStr s)) fallback = Atom (JStr s)"
| "normalizeString _ fallback = fallback"

text \<open>
  The body of the loop of \<open>normalizeDomainList\<close> up to the duplicate test:
  \<open>None\<close> is a \<open>continue\<close>, \<open>Some hostname\<close> reaches \<open>seen.has(hostname)\<close>.
\<close>

definition isValidHostname :: "string \<Rightarrow> bool" where
  "isValidHostname hostname =
     (hostname \<noteq> []
      \<and> \<not> length hostname > 253
      \<and> CHR ''.'' \<in> set hostname
      \<and> \<not> (prefix ''.'' hostname \<or> suffix ''.'' hostname)
      \<and> \<not> includesStr hostname ''..''
      \<and> \<not> (\<exists>c \<in> set hostname. isWhitespace c)
      \<and> (\<forall>c \<in> set hostname. isHostChar c))"

definition domainOfRaw :: "string \<Rightarrow> string" where
  "domainOfRaw raw =
     stripPrefix ''www.''
       (splitFirst (CHR ''#'') (splitFirst (CHR ''?'') (splitFirst (CHR ''/'') (stripProtocol raw))))"

fun normalizeDomainEntry :: "jsatom \<Rightarrow> string option" where
  "normalizeDomainEntry (JStr rawValue) =
     (let raw = toLowerCase (trim rawValue)
      in if raw = [] then None
         else let hostname = domainOfRaw raw
              in if isValidHostname hostname then Some hostname else None)"
| "normalizeDomainEntry _ = None"

text \<open>
  The \<open>for ... of\<close> loop with its accumulators \<open>out\<close> and \<open>seen\<close>; the \<open>break\<close> returns
  \<open>out\<close> as soon as it holds \<open>maxItems\<close> entries.
\<close>

fun normalizeDomainLoop :: "nat \<Rightarrow> jsatom list \<Rightarrow> string list \<Rightarrow> string set \<Rightarrow> string list" where
  "normalizeDomainLoop maxItems [] out seen = out"
| "normalizeDomainLoop maxItems (rawValue # rest) out seen =
     (case normalizeDomainEntry rawValue of
        None \<Rightarrow> normalizeDomainLoop maxItems rest out seen
      | Some hostname \<Rightarrow>
          if hostname \<in> seen then normalizeDomainLoop maxItems rest out seen
          else if length (out @ [hostname]) \<ge> maxItems then out @ [hostname]
          else normalizeDomainLoop maxItems rest (out @ [hostname]) (insert hostname seen))"

fun normalizeDomainList :: "jsval \<Rightarrow> jsval \<Rightarrow> nat \<Rightarrow> jsval" where
  "normalizeDomainList (JArr xs) fallback maxItems =
     jsStrArr (sort (normalizeDomainLoop maxItems xs [] {}))"
| "normalizeDomainList _ fallback maxItems = fallback"

definition normalizeNumberOrNull :: "jsval \<Rightarrow> jsval \<Rightarrow> jsval" where
  "normalizeNumberOrNull v fallback =
     (if v = jsNull then jsNull
      else if isFiniteNumber v then v else fallback)"

definition MAX_SITE_LIST_ITEMS :: nat where
  "MAX_SITE_LIST_ITEMS = 200"

definition MIN_INTERVAL_MS :: rat where
  "MIN_INTERVAL_MS = 60 * 1000"

definition MAX_INTERVAL_MS :: rat where
  "MAX_INTERVAL_MS = 24 * 60 * 60 * 1000"

definition EXERCISE_DEFAULT_INTERVAL_MS :: rat where
  "EXERCISE_DEFAULT_INTERVAL_MS = 45 * 60 * 1000"

fun normalizeIntervalMs :: "jsval \<Rightarrow> jsval \<Rightarrow> jsval" where
  "normalizeIntervalMs (Atom JNull) fallback = jsNull"
| "normalizeIntervalMs (Atom (JNum (Fin r))) fallback =
     (if r < MIN_INTERVAL_MS \<or> r > MAX_INTERVAL_MS then fallback else jsNumber r)"
| "normalizeIntervalMs _ fallback = fallback"

definition MAX_TASK_LENGTH :: nat where
  "MAX_TASK_LENGTH = 120"

fun normalizeTask :: "jsval \<Rightarrow> jsval \<Rightarrow> jsval" where
  "normalizeTask (Atom (JStr s)) fallback =
     (let trimmed = trim s
      in if trimmed = [] then jsStr ''''
         else if length trimmed > MAX_TASK_LENGTH then jsStr (take MAX_TASK_LENGTH trimmed)
         else jsStr trimmed)"
| "normalizeTask _ fallback = fallback"

text \<open>
  \<open>Math.max(0, Number.isFinite(v) ? v : 0)\<close>, the clamp applied to each exercise counter.
\<close>

fun clampCounter :: "jsval \<Rightarrow> jsval" where
  "clampCounter (Atom (JNum (Fin r))) = jsNumber (max 0 r)"
| "clampCounter _ = jsNumber 0"

text \<open>
  \<open>enforceStateValidity\<close>: the statements of the source in their order, each on the copy
  \<open>sanitized\<close> left by the one before.
\<close>

definition enforceStateValidity :: "jsobj \<Rightarrow> jsobj" where
  "enforceStateValidity nextState =
     (let s1 = (if \<not> truthy (getProp nextState ''currentTask'')
                then nextState(''currentTask'' \<mapsto> jsStr '''') else nextState);
          s2 = (if truthy (getProp s1 ''isInFlow'') \<and> \<not> truthy (getProp s1 ''currentTask'')
                then s1(''isInFlow'' \<mapsto> jsBool False) else s1);
          s3 = (if \<not> truthy (getProp s2 ''isInFlow'') \<or> \<not> truthy (getProp s2 ''currentTask'')
                then s2(''isInFlow'' \<mapsto> jsBool False,
                        ''breakReminderEnabled'' \<mapsto> jsBool False,
                        ''reminderStartTime'' \<mapsto> jsNull,
                        ''reminderInterval'' \<mapsto> jsNull,
                        ''reminderExpectedEndTime'' \<mapsto> jsNull)
                else s2);
          s4 = (if truthy (getProp s3 ''exerciseReminderEnabled'')
                   \<and> (getProp s3 ''exerciseIntervalMs'' = jsNull
                        \<or> getProp s3 ''exerciseIntervalMs'' = jsUndefined)
                then s3(''exerciseIntervalMs'' \<mapsto> jsNumber EXERCISE_DEFAULT_INTERVAL_MS)
                else s3);
          s5 = s4(''exerciseStatsPushUps'' \<mapsto> clampCounter (getProp s4 ''exerciseStatsPushUps''));
          s6 = s5(''exerciseStatsSitUps'' \<mapsto> clampCounter (getProp s5 ''exerciseStatsSitUps''));
          s7 = s6(''exerciseStatsSquats'' \<mapsto> clampCounter (getProp s6 ''exerciseStatsSquats''))
      in s7)"

definition enforceStateInvariants :: "jsobj \<Rightarrow> jsobj" where
  "enforceStateInvariants nextState = enforceStateValidity nextState"

text \<open>
  Both transitions normalize a field with the same function, applied to the incoming
  value and a fallback; the table lists them by schema key. The three counters are
  \<open>normalizeNumberOrNull(v, fallback) ?? fallback\<close>.
\<close>

definition normalizeSiteList :: "jsval \<Rightarrow> jsval \<Rightarrow> jsval" where
  "normalizeSiteList v fallback = normalizeDomainList v fallback MAX_SITE_LIST_ITEMS"

definition normalizeCounter :: "jsval \<Rightarrow> jsval \<Rightarrow> jsval" where
  "normalizeCounter v fallback = nullishCoalesce (normalizeNumberOrNull v fallback) fallback"

definition fieldNormalizers :: "(string \<times> (jsval \<Rightarrow> jsval \<Rightarrow> jsval)) list" where
  "fieldNormalizers =
     [(''currentTask'', normalizeTask),
      (''isInFlow'', normalizeBoolean),
      (''intentGateEnabled'', normalizeBoolean),
      (''breakReminderEnabled'', normalizeBoolean),
      (''mindfulnessReminderEnabled'', normalizeBoolean),
      (''hasSeenOnboarding'', normalizeBoolean),
      (''distractingSites'', normalizeSiteList),
      (''deepWorkBlockedSites'', normalizeSiteList),
      (''reminderStartTime'', normalizeNumberOrNull),
      (''reminderInterval'', normalizeIntervalMs),
      (''reminderExpectedEndTime'', normalizeNumberOrNull),
      (''mindfulnessLastShownAt'', normalizeNumberOrNull),
      (''exerciseReminderEnabled'', normalizeBoolean),
      (''exerciseIntervalMs'', normalizeIntervalMs),
      (''exerciseExpectedAt'', normalizeNumberOrNull),
      (''exerciseRemainingMs'', normalizeNumberOrNull),
      (''exerciseStatsDate'', normalizeString),
      (''exerciseStatsPushUps'', normalizeCounter),
      (''exerciseStatsSitUps'', normalizeCounter),
      (''exerciseStatsSquats'', normalizeCounter)]"

definition fieldNormalizer :: "string \<Rightarrow> (jsval \<Rightarrow> jsval \<Rightarrow> jsval) option" where
  "fieldNormalizer = map_of fieldNormalizers"

text \<open>
  \<open>sanitizeStoredState\<close>: \<open>merged\<close> holds every schema key, normalized from the stored
  value with the default as fallback.
\<close>

definition sanitizeStoredState :: "jsarg \<Rightarrow> jsobj" where
  "sanitizeStoredState storedState =
     (let base = getDefaultState;
          stored = (case storedState of Obj m \<Rightarrow> m | NotObj \<Rightarrow> Map.empty);
          merged = (\<lambda>k. case fieldNormalizer k of
                           None \<Rightarrow> None
                         | Some f \<Rightarrow> Some (f (getProp stored k) (getProp base k)))
      in enforceStateInvariants (base ++ merged))"

text \<open>
  \<open>computeNextState\<close>: \<open>sanitized\<close> holds the schema keys that are \<open>in updates\<close>, normalized
  with the current value as fallback. A patch that is not an object returns a copy of
  the current state before any normalization or invariant.
\<close>

definition sanitizeUpdates :: "jsobj \<Rightarrow> jsobj \<Rightarrow> jsobj" where
  "sanitizeUpdates current updates =
     (\<lambda>k. case updates k of
             None \<Rightarrow> None
           | Some v \<Rightarrow> (case fieldNormalizer k of
                          None \<Rightarrow> None
                        | Some f \<Rightarrow> Some (f v (getProp current k))))"

definition computeNextState :: "jsarg \<Rightarrow> jsarg \<Rightarrow> jsobj" where
  "computeNextState currentState updates =
     (let current = (case currentState of Obj m \<Rightarrow> m | NotObj \<Rightarrow> getDefaultState)
      in case updates of
           NotObj \<Rightarrow> current
         | Obj u \<Rightarrow> enforceStateInvariants (current ++ sanitizeUpdates current u))"

section \<open>Diff\<close>

fun areStringArraysEqual :: "jsval \<Rightarrow> jsval \<Rightarrow> bool" where
  "areStringArraysEqual (JArr a) (JArr b) = list_all2 strictEqAtom a b"
| "areStringArraysEqual _ _ = False"

text \<open>\<open>prevValue !== nextValue\<close> where \<open>nextValue\<close> is not an array.\<close>

fun strictNotEqual :: "jsval \<Rightarrow> jsatom \<Rightarrow> bool" where
  "strictNotEqual (Atom a) b = (\<not> strictEqAtom a b)"
| "strictNotEqual (JArr xs) b = True"

definition diffState :: "jsarg \<Rightarrow> jsarg \<Rightarrow> jsobj" where
  "diffState prevState nextState =
     (let prev = (case prevState of Obj m \<Rightarrow> m | NotObj \<Rightarrow> Map.empty);
          next = (case nextState of Obj m \<Rightarrow> m | NotObj \<Rightarrow> getDefaultState)
      in (\<lambda>key. case next key of
                   None \<Rightarrow> None
                 | Some nextValue \<Rightarrow>
                     (let prevValue = getProp prev key
                      in case nextValue of
                           JArr b \<Rightarrow> if \<not> areStringArraysEqual prevValue nextValue
                                     then Some nextValue else None
                         | Atom b \<Rightarrow> if strictNotEqual prevValue b
                                     then Some nextValue else None)))"

section \<open>State contract (state_contract.js)\<close>

definition STATE_KEYS :: "string list" where
  "STATE_KEYS = map fst DEFAULT_STATE"

definition UI_ALLOWED_UPDATE_KEYS :: "string list" where
  "UI_ALLOWED_UPDATE_KEYS =
     [''intentGateEnabled'', ''breakReminderEnabled'', ''mindfulnessReminderEnabled'',
      ''hasSeenOnboarding'', ''currentTask'', ''isInFlow'', ''distractingSites'',
      ''deepWorkBlockedSites'', ''exerciseReminderEnabled'']"

definition UNTRUSTED_STATE_KEYS :: "string list" where
  "UNTRUSTED_STATE_KEYS = [''isInFlow'']"

section \<open>State runtime (background_state.js)\<close>

text \<open>
  A message sender: \<open>senderId\<close> is \<open>sender.id\<close> and \<open>senderUrl\<close> is \<open>sender.url\<close>, each
  \<open>None\<close> when absent or not a string. \<open>runtimeId\<close> is \<open>chrome.runtime.id\<close>.
\<close>

record sender =
  senderId :: "string option"
  senderUrl :: "string option"

definition isTrustedExtensionSender :: "string option \<Rightarrow> sender \<Rightarrow> bool" where
  "isTrustedExtensionSender runtimeId sndr =
     (case runtimeId of
        None \<Rightarrow> False
      | Some rid \<Rightarrow>
          if rid = [] then False
          else if senderId sndr \<noteq> Some rid then False
          else (let url = (case senderUrl sndr of Some u \<Rightarrow> u | None \<Rightarrow> '''');
                    extensionOrigin = ''chrome-extension://'' @ rid @ ''/''
                in url \<noteq> [] \<and> prefix extensionOrigin url))"

definition filterPayloadKeys :: "jsarg \<Rightarrow> string list \<Rightarrow> jsobj" where
  "filterPayloadKeys payload allowedKeys =
     (case payload of
        NotObj \<Rightarrow> Map.empty
      | Obj p \<Rightarrow> (\<lambda>key. if key \<in> set allowedKeys then p key else None))"

text \<open>
  The hydrated runtime: the in-memory \<open>state\<close>, the contents of \<open>chrome.storage.local\<close>
  and the deltas broadcast so far, oldest first.
\<close>

record runtime =
  state :: jsobj
  storage :: jsobj
  broadcasts :: "jsobj list"

text \<open>
  \<open>chrome.storage.local.set\<close> belongs to the platform, so the runtime takes it as the
  parameter \<open>storageSet\<close>: \<open>storageSet store items\<close> is \<open>Some\<close> of the store once the
  callback has been invoked (whatever was written), and \<open>None\<close> when the call throws.
\<close>

type_synonym storageSet = "jsobj \<Rightarrow> jsobj \<Rightarrow> jsobj option"

text \<open>
  One mutation of \<open>updateState\<close>, run to completion on a hydrated runtime. The in-memory
  state advances before the write; a write that throws is the only step that can reject,
  and the \<open>catch\<close> then resolves the mutation to \<open>false\<close>, with no notification and no
  broadcast. Subscriber errors and broadcast errors are caught where they arise.
\<close>

definition updateState :: "storageSet \<Rightarrow> runtime \<Rightarrow> jsarg \<Rightarrow> bool \<times> runtime" where
  "updateState storageSet rt updates =
     (case updates of
        NotObj \<Rightarrow> (False, rt)
      | Obj u \<Rightarrow>
          (let nextState = computeNextState (Obj (state rt)) updates;
               delta = diffState (Obj (state rt)) (Obj nextState)
           in if delta = Map.empty then (True, rt)
              else (case storageSet (storage rt) delta of
                      None \<Rightarrow> (False, rt\<lparr>state := nextState\<rparr>)
                    | Some store \<Rightarrow>
                        (True, rt\<lparr>state := nextState,
                                   storage := store,
                                   broadcasts := broadcasts rt @ [delta]\<rparr>))))"

datatype reply = Reply bool "string option"

text \<open>The \<open>updateState\<close> branch of the message listener.\<close>

definition handleUpdateStateMessage ::
    "storageSet \<Rightarrow> string option \<Rightarrow> runtime \<Rightarrow> sender \<Rightarrow> jsarg \<Rightarrow> reply \<times> runtime" where
  "handleUpdateStateMessage storageSet runtimeId rt sndr payload =
     (case payload of
        NotObj \<Rightarrow> (Reply False (Some ''Invalid payload''), rt)
      | Obj p \<Rightarrow>
          if \<not> isTrustedExtensionSender runtimeId sndr then (Reply False (Some ''Forbidden''), rt)
          else (let filteredPayload = filterPayloadKeys payload UI_ALLOWED_UPDATE_KEYS
                in if filteredPayload = Map.empty then (Reply False (Some ''No valid keys''), rt)
                   else (let (success, rt') = updateState storageSet rt (Obj filteredPayload)
                         in (Reply success None, rt'))))"

text \<open>
  The \<open>getState\<close> branch of the message listener, with \<open>message.keys\<close> and \<open>message.key\<close>
  as they arrive; the result is the object passed to \<open>sendResponse\<close>.
\<close>

definition handleGetStateMessage ::
    "string option \<Rightarrow> runtime \<Rightarrow> sender \<Rightarrow> jsval \<Rightarrow> jsval \<Rightarrow> jsobj" where
  "handleGetStateMessage runtimeId rt sndr keys key =
     (let isTrusted = isTrustedExtensionSender runtimeId sndr;
          allowedKeys = (if isTrusted then STATE_KEYS else UNTRUSTED_STATE_KEYS)
      in case keys of
           JArr ks \<Rightarrow>
             (\<lambda>k. if JStr k \<in> set ks \<and> k \<in> set allowedKeys
                   then Some (getProp (state rt) k) else None)
         | Atom _ \<Rightarrow>
             (case key of
                Atom (JStr k) \<Rightarrow>
                  if k \<notin> set allowedKeys then Map.empty
                  else [k \<mapsto> getProp (state rt) k]
              | _ \<Rightarrow>
                  if isTrusted then state rt
                  else (\<lambda>k. if k \<in> set allowedKeys
                             then Some (getProp (state rt) k) else None)))"

section \<open>Distraction matcher and intent gate (distraction_matcher.js, intent_gate_helpers.js)\<close>




record gateMatch =
  hostname :: string
  shouldGate :: bool
  isDeepWorkBlocked :: bool


section \<open>Predicates used in the statements\<close>

text \<open>The state a transition starts from: \<open>getDefaultState()\<close> replaces a non-object.\<close>

definition currentOf :: "jsarg \<Rightarrow> jsobj" where
  "currentOf currentState = (case currentState of Obj m \<Rightarrow> m | NotObj \<Rightarrow> getDefaultState)"

text \<open>The state is in flow when \<open>isInFlow\<close> and \<open>currentTask\<close> are both truthy.\<close>

definition inFlow :: "jsobj \<Rightarrow> bool" where
  "inFlow m = (truthy (getProp m ''isInFlow'') \<and> truthy (getProp m ''currentTask''))"

text \<open>The four stages of \<open>enforceStateValidity\<close>, named for the proofs.\<close>

definition stepTask :: "jsobj \<Rightarrow> jsobj" where
  "stepTask m =
     (if \<not> truthy (getProp m ''currentTask'') then m(''currentTask'' \<mapsto> jsStr '''') else m)"

definition stepFlow :: "jsobj \<Rightarrow> jsobj" where
  "stepFlow m =
     (if inFlow m then m
      else m(''isInFlow'' \<mapsto> jsBool False,
             ''breakReminderEnabled'' \<mapsto> jsBool False,
             ''reminderStartTime'' \<mapsto> jsNull,
             ''reminderInterval'' \<mapsto> jsNull,
             ''reminderExpectedEndTime'' \<mapsto> jsNull))"

definition stepInterval :: "jsobj \<Rightarrow> jsobj" where
  "stepInterval m =
     (if truthy (getProp m ''exerciseReminderEnabled'') \<and> nullish (getProp m ''exerciseIntervalMs'')
      then m(''exerciseIntervalMs'' \<mapsto> jsNumber EXERCISE_DEFAULT_INTERVAL_MS)
      else m)"

definition stepCounters :: "jsobj \<Rightarrow> jsobj" where
  "stepCounters m =
     m(''exerciseStatsPushUps'' \<mapsto> clampCounter (getProp m ''exerciseStatsPushUps''),
       ''exerciseStatsSitUps'' \<mapsto> clampCounter (getProp m ''exerciseStatsSitUps''),
       ''exerciseStatsSquats'' \<mapsto> clampCounter (getProp m ''exerciseStatsSquats''))"

text \<open>
  The flow invariants of the data model: in flow requires a non-empty task, and an empty
  task comes with \<open>isInFlow\<close> equal to \<open>false\<close>; not in flow means the three focus-session
  timer fields are \<open>null\<close> and \<open>breakReminderEnabled\<close> is \<open>false\<close>.
\<close>

definition flowInvariant :: "jsobj \<Rightarrow> bool" where
  "flowInvariant s =
     ((truthy (getProp s ''isInFlow'') \<longrightarrow> truthy (getProp s ''currentTask''))
      \<and> (\<not> truthy (getProp s ''currentTask'') \<longrightarrow> getProp s ''isInFlow'' = jsBool False)
      \<and> (\<not> truthy (getProp s ''isInFlow'') \<longrightarrow>
            getProp s ''reminderStartTime'' = jsNull
            \<and> getProp s ''reminderInterval'' = jsNull
            \<and> getProp s ''reminderExpectedEndTime'' = jsNull
            \<and> getProp s ''breakReminderEnabled'' = jsBool False))"

text \<open>What the claim adds for a state in flow: the three timer fields are not \<open>null\<close>.\<close>

definition timerFieldsNonNull :: "jsobj \<Rightarrow> bool" where
  "timerFieldsNonNull s =
     (getProp s ''reminderStartTime'' \<noteq> jsNull
      \<and> getProp s ''reminderInterval'' \<noteq> jsNull
      \<and> getProp s ''reminderExpectedEndTime'' \<noteq> jsNull)"

fun isNonNegativeNumber :: "jsval \<Rightarrow> bool" where
  "isNonNegativeNumber (Atom (JNum (Fin r))) = (0 \<le> r)"
| "isNonNegativeNumber _ = False"

fun isIntegerNumber :: "jsval \<Rightarrow> bool" where
  "isIntegerNumber (Atom (JNum (Fin r))) = (of_int \<lfloor>r\<rfloor> = r)"
| "isIntegerNumber _ = False"

definition countersNonNegative :: "jsobj \<Rightarrow> bool" where
  "countersNonNegative s =
     (isNonNegativeNumber (getProp s ''exerciseStatsPushUps'')
      \<and> isNonNegativeNumber (getProp s ''exerciseStatsSitUps'')
      \<and> isNonNegativeNumber (getProp s ''exerciseStatsSquats''))"

definition isCounterKey :: "string \<Rightarrow> bool" where
  "isCounterKey k =
     (k = ''exerciseStatsPushUps'' \<or> k = ''exerciseStatsSitUps'' \<or> k = ''exerciseStatsSquats'')"

text \<open>\<open>x || {}\<close> and \<open>x && typeof x === 'object' ? x : {}\<close>.\<close>

definition objectOrEmpty :: "jsarg \<Rightarrow> jsobj" where
  "objectOrEmpty a = (case a of Obj m \<Rightarrow> m | NotObj \<Rightarrow> Map.empty)"

text \<open>
  The invariant as the claim words it: the flow invariants, and in flow the timer
  fields are not \<open>null\<close>.
\<close>

definition claimedFlowInvariant :: "jsobj \<Rightarrow> bool" where
  "claimedFlowInvariant s =
     (flowInvariant s \<and> (truthy (getProp s ''isInFlow'') \<longrightarrow> timerFieldsNonNull s))"

text \<open>Example inputs.\<close>

definition startFlowPatch :: jsobj where
  "startFlowPatch = [''currentTask'' \<mapsto> jsStr ''write report'', ''isInFlow'' \<mapsto> jsBool True]"

definition inFlowWithoutTask :: jsobj where
  "inFlowWithoutTask = getDefaultState(''isInFlow'' \<mapsto> jsBool True)"

definition halfPushUp :: jsobj where
  "halfPushUp = [''exerciseStatsPushUps'' \<mapsto> jsNumber (5 / 2)]"

definition fivePushUps :: jsobj where
  "fivePushUps = getDefaultState(''exerciseStatsPushUps'' \<mapsto> jsNumber 5)"

definition nanPushUps :: jsobj where
  "nanPushUps = [''exerciseStatsPushUps'' \<mapsto> Atom (JNum NaN)]"

text \<open>
  A value is identical to itself under \<open>===\<close> unless it is \<open>NaN\<close> or an array holding
  \<open>NaN\<close>. Every value the schema admits (strings, booleans, \<open>null\<close>, finite numbers and
  arrays of strings) is.
\<close>

fun selfIdentical :: "jsval \<Rightarrow> bool" where
  "selfIdentical (Atom a) = (a \<noteq> JNum NaN)"
| "selfIdentical (JArr xs) = (JNum NaN \<notin> set xs)"

definition nanFree :: "jsobj \<Rightarrow> bool" where
  "nanFree s = (\<forall>k v. s k = Some v \<longrightarrow> selfIdentical v)"

text \<open>
  The validity invariants that \<open>enforceStateValidity\<close> establishes: the task is present and
  is \<open>''\<close> when falsy; a state not in flow has \<open>isInFlow\<close> and \<open>breakReminderEnabled\<close> equal
  to \<open>false\<close> and the three timer fields equal to \<open>null\<close>; an enabled exercise reminder has an
  interval; the three counters are finite numbers that are at least 0.
\<close>

definition satisfiesInvariants :: "jsobj \<Rightarrow> bool" where
  "satisfiesInvariants s =
     (s ''currentTask'' \<noteq> None
      \<and> (truthy (getProp s ''currentTask'') \<or> getProp s ''currentTask'' = jsStr '''')
      \<and> (\<not> inFlow s \<longrightarrow>
            s ''isInFlow'' = Some (jsBool False)
            \<and> s ''breakReminderEnabled'' = Some (jsBool False)
            \<and> s ''reminderStartTime'' = Some jsNull
            \<and> s ''reminderInterval'' = Some jsNull
            \<and> s ''reminderExpectedEndTime'' = Some jsNull)
      \<and> \<not> (truthy (getProp s ''exerciseReminderEnabled'') \<and> nullish (getProp s ''exerciseIntervalMs''))
      \<and> (\<forall>k. isCounterKey k \<longrightarrow> s k \<noteq> None \<and> isNonNegativeNumber (getProp s k)))"

text \<open>
  Each normalizer either accepts the incoming value, with a result that does not depend
  on the fallback, or returns the fallback.
\<close>

definition acceptsOrFallsBack :: "(jsval \<Rightarrow> jsval \<Rightarrow> jsval) \<Rightarrow> jsval \<Rightarrow> bool" where
  "acceptsOrFallsBack f v = ((\<forall>fb fb'. f v fb = f v fb') \<or> (\<forall>fb. f v fb = fb))"

text \<open>Example inputs for the diff.\<close>

definition sitesA :: jsobj where
  "sitesA = [''sites'' \<mapsto> jsStrArr [''a.com'']]"

definition unknownKeyPatch :: jsobj where
  "unknownKeyPatch = [''theme'' \<mapsto> jsStr ''dark'', ''isinflow'' \<mapsto> jsBool True]"

text \<open>
  A normalized hostname, as the data model words it: it matches \<open>^[a-z0-9.-]+$\<close>, holds a
  dot, has no leading, trailing or doubled dot and at most 253 characters, is lowercase,
  and carries no scheme, path, query or fragment.
\<close>

definition matchesHostPattern :: "string \<Rightarrow> bool" where
  "matchesHostPattern h = (h \<noteq> [] \<and> (\<forall>c \<in> set h. isHostChar c))"

definition containsDoubledDot :: "string \<Rightarrow> bool" where
  "containsDoubledDot h = (\<exists>pre post. h = pre @ ''..'' @ post)"

definition isNormalizedHostname :: "string \<Rightarrow> bool" where
  "isNormalizedHostname h =
     (matchesHostPattern h
      \<and> CHR ''.'' \<in> set h
      \<and> hd h \<noteq> CHR ''.'' \<and> last h \<noteq> CHR ''.'' \<and> \<not> containsDoubledDot h
      \<and> length h \<le> 253
      \<and> toLowerCase h = h
      \<and> \<not> prefix ''http://'' h \<and> \<not> prefix ''https://'' h
      \<and> CHR ''/'' \<notin> set h \<and> CHR ''?'' \<notin> set h \<and> CHR ''#'' \<notin> set h)"

text \<open>The hostnames that the entries of an input array normalize to.\<close>

definition hostnamesOf :: "jsatom list \<Rightarrow> string set" where
  "hostnamesOf xs = {h. \<exists>x \<in> set xs. normalizeDomainEntry x = Some h}"

text \<open>
  An input string that still begins with \<open>www.www.\<close> once trimmed, lowercased and rid of
  its scheme.
\<close>

definition hasRepeatedWww :: "jsatom list \<Rightarrow> bool" where
  "hasRepeatedWww xs =
     (\<exists>x. JStr x \<in> set xs \<and> prefix ''www.www.'' (stripProtocol (toLowerCase (trim x))))"

text \<open>
  What normalization makes of the array \<open>xs\<close>: every entry is a normalized hostname that
  comes from an entry of \<open>xs\<close>, and begins with \<open>www.\<close> only when the input repeated it;
  there are no duplicates, the list is sorted and holds at most 200 entries; and below
  the cap no valid entry of \<open>xs\<close> is lost.
\<close>

definition normalizedSiteList :: "jsatom list \<Rightarrow> string list \<Rightarrow> bool" where
  "normalizedSiteList xs ys =
     ((\<forall>h \<in> set ys. isNormalizedHostname h \<and> h \<in> hostnamesOf xs
                      \<and> (prefix ''www.'' h \<longrightarrow> hasRepeatedWww xs))
      \<and> distinct ys \<and> sorted ys \<and> length ys \<le> 200
      \<and> (length ys < 200 \<longrightarrow> set ys = hostnamesOf xs))"

definition isSiteListKey :: "string \<Rightarrow> bool" where
  "isSiteListKey k = (k = ''distractingSites'' \<or> k = ''deepWorkBlockedSites'')"

text \<open>Example inputs for the site lists.\<close>

definition rawSites :: "jsatom list" where
  "rawSites =
     [JStr ''https://WWW.Example.com/path?x=1'', JStr ''not a host'', JStr ''b.com'',
      JStr '' B.com '', JNum (Fin 7)]"

definition sitesPatch :: jsobj where
  "sitesPatch = [''distractingSites'' \<mapsto> JArr rawSites]"

text \<open>
  The fields of the schema by kind, as the data model groups them: session fields, the
  two site lists, the enable flags, and the fields the claim calls timer-internal.
\<close>

definition sessionFields :: "string set" where
  "sessionFields = {''currentTask'', ''isInFlow'', ''hasSeenOnboarding''}"

definition siteListFields :: "string set" where
  "siteListFields = {''distractingSites'', ''deepWorkBlockedSites''}"

definition enableFlagFields :: "string set" where
  "enableFlagFields =
     {''intentGateEnabled'', ''breakReminderEnabled'', ''mindfulnessReminderEnabled'',
      ''exerciseReminderEnabled''}"

definition timerInternalKeys :: "string set" where
  "timerInternalKeys =
     {''reminderStartTime'', ''reminderInterval'', ''reminderExpectedEndTime'',
      ''exerciseIntervalMs'', ''exerciseExpectedAt'', ''exerciseRemainingMs''}"

text \<open>Example senders, runtimes, stores and payloads.\<close>

definition popupSender :: sender where
  "popupSender =
     \<lparr>senderId = Some ''maizoneid'', senderUrl = Some ''chrome-extension://maizoneid/popup.html''\<rparr>"

definition pageSender :: sender where
  "pageSender = \<lparr>senderId = Some ''maizoneid'', senderUrl = Some ''https://example.com/''\<rparr>"

definition freshRuntime :: runtime where
  "freshRuntime = \<lparr>state = getDefaultState, storage = Map.empty, broadcasts = []\<rparr>"

text \<open>The runtime once hydrated from an empty store: the sanitized defaults, persisted.\<close>

definition hydratedRuntime :: runtime where
  "hydratedRuntime =
     \<lparr>state = sanitizeStoredState NotObj, storage = sanitizeStoredState NotObj, broadcasts = []\<rparr>"

text \<open>A store that takes every write, and one whose \<open>set\<close> throws.\<close>

definition storageWrites :: storageSet where
  "storageWrites store items = Some (store ++ items)"

definition storageThrows :: storageSet where
  "storageThrows store items = None"

definition taskAndTimerPayload :: jsobj where
  "taskAndTimerPayload =
     [''currentTask'' \<mapsto> jsStr ''write report'', ''reminderInterval'' \<mapsto> jsNumber 120000,
      ''exerciseIntervalMs'' \<mapsto> jsNumber 3600000]"

definition timerOnlyPayload :: jsobj where
  "timerOnlyPayload = [''reminderInterval'' \<mapsto> jsNumber 120000]"










text \<open>
  What a sender that is not trusted is answered, written as a function of the request
  and of the value of \<open>isInFlow\<close> alone.
\<close>

definition untrustedReply :: "jsval \<Rightarrow> jsval \<Rightarrow> jsval \<Rightarrow> jsobj" where
  "untrustedReply keys key flow =
     (case keys of
        JArr ks \<Rightarrow> (\<lambda>k. if JStr k \<in> set ks \<and> k = ''isInFlow'' then Some flow else None)
      | Atom a \<Rightarrow>
          (case key of
             Atom (JStr k) \<Rightarrow> if k \<noteq> ''isInFlow'' then Map.empty else [''isInFlow'' \<mapsto> flow]
           | _ \<Rightarrow> (\<lambda>k. if k = ''isInFlow'' then Some flow else None)))"

text \<open>The two patches of the ordering scenario.\<close>

definition taskA :: jsobj where
  "taskA = [''currentTask'' \<mapsto> jsStr ''A'']"

definition taskB :: jsobj where
  "taskB = [''currentTask'' \<mapsto> jsStr ''B'']"

text \<open>An empty patch, and a state whose \<open>mindfulnessLastShownAt\<close> is \<open>NaN\<close>.\<close>

definition emptyPatch :: jsobj where
  "emptyPatch = Map.empty"

definition nanShownAt :: jsobj where
  "nanShownAt = getDefaultState(''mindfulnessLastShownAt'' \<mapsto> Atom (JNum NaN))"

section \<open>The invariant engine\<close>

lemma getProp_upd [simp]: "getProp (m(k \<mapsto> v)) k' = (if k' = k then v else getProp m k')"
  by (simp add: getProp_def)

lemma getProp_Some: "m k = Some v \<Longrightarrow> getProp m k = v"
  by (simp add: getProp_def)

lemma getProp_None: "m k = None \<Longrightarrow> getProp m k = jsUndefined"
  by (simp add: getProp_def)

lemma flow_twice:
  "(if truthy (getProp m ''isInFlow'') \<and> \<not> truthy (getProp m ''currentTask'')
    then m(''isInFlow'' \<mapsto> jsBool False) else m) = s2 \<Longrightarrow>
   (if \<not> truthy (getProp s2 ''isInFlow'') \<or> \<not> truthy (getProp s2 ''currentTask'')
    then s2(''isInFlow'' \<mapsto> jsBool False,
            ''breakReminderEnabled'' \<mapsto> jsBool False,
            ''reminderStartTime'' \<mapsto> jsNull,
            ''reminderInterval'' \<mapsto> jsNull,
            ''reminderExpectedEndTime'' \<mapsto> jsNull)
    else s2) = stepFlow m"
  by (auto simp: stepFlow_def inFlow_def)

lemma counters_seq:
  "s4(''exerciseStatsPushUps'' \<mapsto> clampCounter (getProp s4 ''exerciseStatsPushUps'')) = s5 \<Longrightarrow>
   s5(''exerciseStatsSitUps'' \<mapsto> clampCounter (getProp s5 ''exerciseStatsSitUps'')) = s6 \<Longrightarrow>
   s6(''exerciseStatsSquats'' \<mapsto> clampCounter (getProp s6 ''exerciseStatsSquats'')) = stepCounters s4"
  by (auto simp: stepCounters_def)

lemma enforce_steps:
  "enforceStateValidity m = stepCounters (stepInterval (stepFlow (stepTask m)))"
proof -
  have "enforceStateValidity m =
     (let s1 = stepTask m;
          s3 = stepFlow s1;
          s4 = stepInterval s3
      in stepCounters s4)"
    unfolding enforceStateValidity_def Let_def
    by (simp only: flow_twice [OF refl] counters_seq [OF refl refl] stepTask_def [symmetric]
          stepInterval_def [symmetric, unfolded nullish_def])
  then show ?thesis by (simp add: Let_def)
qed

lemma stepTask_apply:
  "stepTask m k =
     (if k = ''currentTask'' \<and> \<not> truthy (getProp m ''currentTask'') then Some (jsStr '''') else m k)"
  by (simp add: stepTask_def)

lemma stepFlow_apply:
  "stepFlow m k =
     (if inFlow m then m k
      else if k = ''isInFlow'' \<or> k = ''breakReminderEnabled'' then Some (jsBool False)
      else if k = ''reminderStartTime'' \<or> k = ''reminderInterval'' \<or> k = ''reminderExpectedEndTime''
        then Some jsNull
      else m k)"
  by (simp add: stepFlow_def)

lemma stepInterval_apply:
  "stepInterval m k =
     (if k = ''exerciseIntervalMs'' \<and> truthy (getProp m ''exerciseReminderEnabled'')
           \<and> nullish (getProp m ''exerciseIntervalMs'')
      then Some (jsNumber EXERCISE_DEFAULT_INTERVAL_MS) else m k)"
  by (simp add: stepInterval_def)

lemma stepCounters_apply:
  "stepCounters m k = (if isCounterKey k then Some (clampCounter (getProp m k)) else m k)"
  by (simp add: stepCounters_def isCounterKey_def)

lemma getProp_stepTask:
  "getProp (stepTask m) k =
     (if k = ''currentTask'' \<and> \<not> truthy (getProp m ''currentTask'') then jsStr '''' else getProp m k)"
  by (simp add: stepTask_def)

lemma inFlow_stepTask: "inFlow (stepTask m) = inFlow m"
  by (simp add: inFlow_def getProp_stepTask)

lemma getProp_stepFlow:
  "getProp (stepFlow m) k =
     (if inFlow m then getProp m k
      else if k = ''isInFlow'' \<or> k = ''breakReminderEnabled'' then jsBool False
      else if k = ''reminderStartTime'' \<or> k = ''reminderInterval'' \<or> k = ''reminderExpectedEndTime''
        then jsNull
      else getProp m k)"
  by (simp add: stepFlow_def)

lemma getProp_stepInterval:
  "getProp (stepInterval m) k =
     (if k = ''exerciseIntervalMs'' \<and> truthy (getProp m ''exerciseReminderEnabled'')
           \<and> nullish (getProp m ''exerciseIntervalMs'')
      then jsNumber EXERCISE_DEFAULT_INTERVAL_MS else getProp m k)"
  by (simp add: stepInterval_def)

text \<open>What \<open>enforceStateValidity\<close> leaves under each key.\<close>

lemma enforce_apply:
  "enforceStateValidity m k =
     (if k = ''currentTask''
        then (if truthy (getProp m ''currentTask'') then m k else Some (jsStr ''''))
      else if k = ''isInFlow'' \<or> k = ''breakReminderEnabled''
        then (if inFlow m then m k else Some (jsBool False))
      else if k = ''reminderStartTime'' \<or> k = ''reminderInterval'' \<or> k = ''reminderExpectedEndTime''
        then (if inFlow m then m k else Some jsNull)
      else if k = ''exerciseIntervalMs''
        then (if truthy (getProp m ''exerciseReminderEnabled'') \<and> nullish (getProp m ''exerciseIntervalMs'')
              then Some (jsNumber EXERCISE_DEFAULT_INTERVAL_MS) else m k)
      else if isCounterKey k then Some (clampCounter (getProp m k))
      else m k)"
  by (auto simp add: enforce_steps stepCounters_apply stepInterval_apply stepFlow_apply stepTask_apply
        getProp_stepInterval getProp_stepFlow getProp_stepTask inFlow_stepTask isCounterKey_def)

lemma getProp_enforce:
  "getProp (enforceStateValidity m) k =
     (if k = ''currentTask''
        then (if truthy (getProp m ''currentTask'') then getProp m k else jsStr '''')
      else if k = ''isInFlow'' \<or> k = ''breakReminderEnabled''
        then (if inFlow m then getProp m k else jsBool False)
      else if k = ''reminderStartTime'' \<or> k = ''reminderInterval'' \<or> k = ''reminderExpectedEndTime''
        then (if inFlow m then getProp m k else jsNull)
      else if k = ''exerciseIntervalMs''
        then (if truthy (getProp m ''exerciseReminderEnabled'') \<and> nullish (getProp m ''exerciseIntervalMs'')
              then jsNumber EXERCISE_DEFAULT_INTERVAL_MS else getProp m k)
      else if isCounterKey k then clampCounter (getProp m k)
      else getProp m k)"
  unfolding getProp_def [of "enforceStateValidity m"] enforce_apply
  by (simp add: getProp_def)

lemma inFlow_enforce: "inFlow (enforceStateValidity m) = inFlow m"
  by (simp add: inFlow_def getProp_enforce isCounterKey_def)

lemma flowInvariant_enforce: "flowInvariant (enforceStateValidity m)"
  by (simp add: flowInvariant_def getProp_enforce isCounterKey_def inFlow_def)

lemma clampCounter_nonneg: "isNonNegativeNumber (clampCounter v)"
  by (cases v rule: clampCounter.cases) simp_all

lemma countersNonNegative_enforce: "countersNonNegative (enforceStateValidity m)"
  by (simp add: countersNonNegative_def getProp_enforce isCounterKey_def clampCounter_nonneg)

lemma sanitizeStoredState_enforce:
  "\<exists>m. sanitizeStoredState a = enforceStateValidity m"
  by (auto simp: sanitizeStoredState_def enforceStateInvariants_def Let_def)

lemma computeNextState_Obj:
  "computeNextState c (Obj u) =
     enforceStateValidity (currentOf c ++ sanitizeUpdates (currentOf c) u)"
  by (simp add: computeNextState_def enforceStateInvariants_def currentOf_def Let_def)

lemma computeNextState_NotObj: "computeNextState c NotObj = currentOf c"
  by (simp add: computeNextState_def currentOf_def)

lemma getProp_map_add:
  "getProp (a ++ b) k = (case b k of None \<Rightarrow> getProp a k | Some v \<Rightarrow> v)"
  by (simp add: getProp_def map_add_def split: option.splits)

lemma fieldNormalizer_simps:
  "fieldNormalizer ''currentTask'' = Some normalizeTask"
  "fieldNormalizer ''isInFlow'' = Some normalizeBoolean"
  "fieldNormalizer ''intentGateEnabled'' = Some normalizeBoolean"
  "fieldNormalizer ''breakReminderEnabled'' = Some normalizeBoolean"
  "fieldNormalizer ''mindfulnessReminderEnabled'' = Some normalizeBoolean"
  "fieldNormalizer ''hasSeenOnboarding'' = Some normalizeBoolean"
  "fieldNormalizer ''distractingSites'' = Some normalizeSiteList"
  "fieldNormalizer ''deepWorkBlockedSites'' = Some normalizeSiteList"
  "fieldNormalizer ''reminderStartTime'' = Some normalizeNumberOrNull"
  "fieldNormalizer ''reminderInterval'' = Some normalizeIntervalMs"
  "fieldNormalizer ''reminderExpectedEndTime'' = Some normalizeNumberOrNull"
  "fieldNormalizer ''mindfulnessLastShownAt'' = Some normalizeNumberOrNull"
  "fieldNormalizer ''exerciseReminderEnabled'' = Some normalizeBoolean"
  "fieldNormalizer ''exerciseIntervalMs'' = Some normalizeIntervalMs"
  "fieldNormalizer ''exerciseExpectedAt'' = Some normalizeNumberOrNull"
  "fieldNormalizer ''exerciseRemainingMs'' = Some normalizeNumberOrNull"
  "fieldNormalizer ''exerciseStatsDate'' = Some normalizeString"
  "fieldNormalizer ''exerciseStatsPushUps'' = Some normalizeCounter"
  "fieldNormalizer ''exerciseStatsSitUps'' = Some normalizeCounter"
  "fieldNormalizer ''exerciseStatsSquats'' = Some normalizeCounter"
  by (simp_all add: fieldNormalizer_def fieldNormalizers_def)

lemma fieldNormalizer_counter: "isCounterKey k \<Longrightarrow> fieldNormalizer k = Some normalizeCounter"
  by (auto simp: isCounterKey_def fieldNormalizer_simps)

lemma getDefaultState_simps:
  "getProp getDefaultState ''currentTask'' = jsStr ''''"
  "getProp getDefaultState ''isInFlow'' = jsBool False"
  "getProp getDefaultState ''breakReminderEnabled'' = jsBool False"
  "getProp getDefaultState ''reminderStartTime'' = jsNull"
  "getProp getDefaultState ''reminderInterval'' = jsNull"
  "getProp getDefaultState ''reminderExpectedEndTime'' = jsNull"
  "getProp getDefaultState ''exerciseReminderEnabled'' = jsBool True"
  "getProp getDefaultState ''exerciseIntervalMs'' = jsNull"
  "getProp getDefaultState ''exerciseStatsPushUps'' = jsNumber 0"
  "getProp getDefaultState ''exerciseStatsSitUps'' = jsNumber 0"
  "getProp getDefaultState ''exerciseStatsSquats'' = jsNumber 0"
  by (simp_all add: getDefaultState_def DEFAULT_STATE_def getProp_def)

lemma getDefaultState_counter: "isCounterKey k \<Longrightarrow> getProp getDefaultState k = jsNumber 0"
  by (auto simp: isCounterKey_def getDefaultState_simps)

lemma flowInvariant_default: "flowInvariant getDefaultState"
  by (simp add: flowInvariant_def getDefaultState_simps)

lemma countersNonNegative_default: "countersNonNegative getDefaultState"
  by (simp add: countersNonNegative_def getDefaultState_simps)

lemma normalizeCounter_not_finite:
  "\<not> isFiniteNumber v \<Longrightarrow> normalizeCounter v fallback = fallback"
  by (simp add: normalizeCounter_def normalizeNumberOrNull_def nullishCoalesce_def nullish_def)

lemma getProp_enforce_counter:
  "isCounterKey k \<Longrightarrow> getProp (enforceStateValidity m) k = clampCounter (getProp m k)"
  by (auto simp: isCounterKey_def getProp_enforce)

lemma sanitizeStoredState_counter:
  assumes "isCounterKey k"
  shows "getProp (sanitizeStoredState a) k =
           clampCounter (normalizeCounter (getProp (objectOrEmpty a) k) (jsNumber 0))"
  using assms
  by (simp add: sanitizeStoredState_def enforceStateInvariants_def Let_def getProp_enforce_counter
        getProp_map_add fieldNormalizer_counter getDefaultState_counter objectOrEmpty_def)

lemma computeNextState_counter:
  assumes "isCounterKey k" and "u k = Some v"
  shows "getProp (computeNextState c (Obj u)) k =
           clampCounter (normalizeCounter v (getProp (currentOf c) k))"
  using assms
  by (simp add: computeNextState_Obj getProp_enforce_counter getProp_map_add sanitizeUpdates_def
        fieldNormalizer_counter)

section \<open>Claims about the invariants\<close>

text \<open>
  C1 (as the code has it). After \<open>sanitizeStoredState\<close> on any input, and after
  \<open>computeNextState\<close> on any current state with any object patch, a truthy \<open>isInFlow\<close>
  comes with a non-empty \<open>currentTask\<close>, and a falsy \<open>isInFlow\<close> comes with
  \<open>reminderStartTime\<close>, \<open>reminderInterval\<close> and \<open>reminderExpectedEndTime\<close> equal to \<open>null\<close>
  and \<open>breakReminderEnabled\<close> equal to \<open>false\<close>. A patch that is not an object returns
  the current state as it is, so the invariants hold after it when they held before.
  Nothing is said about the timer fields of a state in flow.
\<close>

theorem flow_invariant_after_transition:
  "flowInvariant (sanitizeStoredState a)
   \<and> flowInvariant (computeNextState c (Obj u))
   \<and> (flowInvariant (currentOf c) \<longrightarrow> flowInvariant (computeNextState c p))"
proof -
  have "flowInvariant (sanitizeStoredState a)"
    using sanitizeStoredState_enforce [of a] by (auto simp: flowInvariant_enforce)
  moreover have obj: "flowInvariant (computeNextState c (Obj u'))" for u'
    by (simp add: computeNextState_Obj flowInvariant_enforce)
  moreover have "flowInvariant (currentOf c) \<longrightarrow> flowInvariant (computeNextState c p)"
    by (cases p) (simp_all add: computeNextState_NotObj obj)
  ultimately show ?thesis using obj by blast
qed

theorem flow_invariant_after_transition_witness:
  "flowInvariant (currentOf NotObj)
   \<and> flowInvariant (sanitizeStoredState NotObj)
   \<and> flowInvariant (computeNextState NotObj (Obj startFlowPatch))
   \<and> flowInvariant (computeNextState NotObj NotObj)"
proof -
  have h: "flowInvariant (currentOf NotObj)"
    by (simp add: currentOf_def flowInvariant_default)
  show ?thesis
    using h flow_invariant_after_transition [of NotObj NotObj startFlowPatch NotObj] by simp
qed

text \<open>
  C1 as stated fails twice. Starting a session from the default state leaves the state
  in flow with all three timer fields \<open>null\<close>; and a patch that is not an object hands
  back a current state that is in flow without a task.
\<close>

theorem flow_invariant_counterexample:
  "getProp (computeNextState (Obj getDefaultState) (Obj startFlowPatch)) ''isInFlow'' = jsBool True
   \<and> getProp (computeNextState (Obj getDefaultState) (Obj startFlowPatch)) ''reminderStartTime'' = jsNull
   \<and> \<not> claimedFlowInvariant (computeNextState (Obj getDefaultState) (Obj startFlowPatch))
   \<and> \<not> claimedFlowInvariant (computeNextState (Obj inFlowWithoutTask) NotObj)"
proof -
  let ?m = "currentOf (Obj getDefaultState) ++ sanitizeUpdates (currentOf (Obj getDefaultState)) startFlowPatch"
  have task: "getProp ?m ''currentTask'' = jsStr ''write report''"
    by (simp add: getProp_map_add sanitizeUpdates_def startFlowPatch_def fieldNormalizer_simps
          trim_def isWhitespace_def MAX_TASK_LENGTH_def)
  have flow: "getProp ?m ''isInFlow'' = jsBool True"
    by (simp add: getProp_map_add sanitizeUpdates_def startFlowPatch_def fieldNormalizer_simps)
  have start: "getProp ?m ''reminderStartTime'' = jsNull"
    by (simp add: getProp_map_add sanitizeUpdates_def startFlowPatch_def currentOf_def
          getDefaultState_simps)
  have inflow: "inFlow ?m"
    by (simp add: inFlow_def task flow)
  have 1: "getProp (computeNextState (Obj getDefaultState) (Obj startFlowPatch)) ''isInFlow'' = jsBool True"
    by (simp add: computeNextState_Obj getProp_enforce inflow flow)
  have 2: "getProp (computeNextState (Obj getDefaultState) (Obj startFlowPatch)) ''reminderStartTime'' = jsNull"
    by (simp add: computeNextState_Obj getProp_enforce inflow start)
  have 3: "\<not> claimedFlowInvariant (computeNextState (Obj getDefaultState) (Obj startFlowPatch))"
    using 1 2 by (simp add: claimedFlowInvariant_def timerFieldsNonNull_def)
  have 4: "\<not> claimedFlowInvariant (computeNextState (Obj inFlowWithoutTask) NotObj)"
    by (simp add: computeNextState_NotObj currentOf_def claimedFlowInvariant_def flowInvariant_def
          inFlowWithoutTask_def getDefaultState_simps)
  show ?thesis using 1 2 3 4 by simp
qed

text \<open>
  C9 (as the code has it). After \<open>sanitizeStoredState\<close> on any input, and after
  \<open>computeNextState\<close> on any current state with any object patch, the three exercise
  counters are finite numbers that are at least 0; a patch that is not an object keeps
  them so. \<open>sanitizeStoredState\<close> replaces a stored counter that is not a finite number
  by 0. In \<open>computeNextState\<close> a patch value that is not a finite number leaves the
  current counter in place, clamped: 0 when the current one is not a finite number.
  Whole numbers are not enforced.
\<close>

theorem exercise_counters_non_negative:
  "countersNonNegative (sanitizeStoredState a)
   \<and> countersNonNegative (computeNextState c (Obj u))
   \<and> (countersNonNegative (currentOf c) \<longrightarrow> countersNonNegative (computeNextState c p))
   \<and> (isCounterKey k \<and> \<not> isFiniteNumber (getProp (objectOrEmpty a) k)
        \<longrightarrow> getProp (sanitizeStoredState a) k = jsNumber 0)
   \<and> (isCounterKey k \<and> u k = Some v \<and> \<not> isFiniteNumber v
        \<longrightarrow> getProp (computeNextState c (Obj u)) k = clampCounter (getProp (currentOf c) k))"
proof -
  have "countersNonNegative (sanitizeStoredState a)"
    using sanitizeStoredState_enforce [of a] by (auto simp: countersNonNegative_enforce)
  moreover have obj: "countersNonNegative (computeNextState c (Obj u'))" for u'
    by (simp add: computeNextState_Obj countersNonNegative_enforce)
  moreover have "countersNonNegative (currentOf c) \<longrightarrow> countersNonNegative (computeNextState c p)"
    by (cases p) (simp_all add: computeNextState_NotObj obj)
  moreover have "isCounterKey k \<and> \<not> isFiniteNumber (getProp (objectOrEmpty a) k)
        \<longrightarrow> getProp (sanitizeStoredState a) k = jsNumber 0"
    by (simp add: sanitizeStoredState_counter normalizeCounter_not_finite)
  moreover have "isCounterKey k \<and> u k = Some v \<and> \<not> isFiniteNumber v
        \<longrightarrow> getProp (computeNextState c (Obj u)) k = clampCounter (getProp (currentOf c) k)"
    by (simp add: computeNextState_counter normalizeCounter_not_finite)
  ultimately show ?thesis using obj by blast
qed

theorem exercise_counters_non_negative_witness:
  "countersNonNegative (currentOf (Obj fivePushUps))
   \<and> countersNonNegative (computeNextState (Obj fivePushUps) NotObj)
   \<and> isCounterKey ''exerciseStatsPushUps''
   \<and> \<not> isFiniteNumber (getProp (objectOrEmpty (Obj nanPushUps)) ''exerciseStatsPushUps'')
   \<and> getProp (sanitizeStoredState (Obj nanPushUps)) ''exerciseStatsPushUps'' = jsNumber 0
   \<and> getProp (computeNextState (Obj fivePushUps) (Obj nanPushUps)) ''exerciseStatsPushUps''
       = jsNumber 5"
proof -
  have h1: "countersNonNegative (currentOf (Obj fivePushUps))"
    by (simp add: currentOf_def fivePushUps_def countersNonNegative_def getDefaultState_simps)
  have h2: "isCounterKey ''exerciseStatsPushUps''"
    by (simp add: isCounterKey_def)
  have h3: "\<not> isFiniteNumber (getProp (objectOrEmpty (Obj nanPushUps)) ''exerciseStatsPushUps'')"
    by (simp add: objectOrEmpty_def nanPushUps_def)
  have h4: "nanPushUps ''exerciseStatsPushUps'' = Some (Atom (JNum NaN))"
    by (simp add: nanPushUps_def)
  have h5: "clampCounter (getProp (currentOf (Obj fivePushUps)) ''exerciseStatsPushUps'') = jsNumber 5"
    by (simp add: currentOf_def fivePushUps_def)
  show ?thesis
    using h1 h2 h3 h4 h5
      exercise_counters_non_negative [of "Obj nanPushUps" "Obj fivePushUps" nanPushUps NotObj
        "''exerciseStatsPushUps''" "Atom (JNum NaN)"]
    by simp
qed

text \<open>
  C9 as stated fails: a stored count of 2.5 push-ups comes out of \<open>sanitizeStoredState\<close>
  as 2.5, which is not a whole number; and a patch value \<open>NaN\<close> is replaced by the
  current count 5, not by 0.
\<close>

theorem exercise_counters_counterexample:
  "getProp (sanitizeStoredState (Obj halfPushUp)) ''exerciseStatsPushUps'' = jsNumber (5 / 2)
   \<and> \<not> isIntegerNumber (getProp (sanitizeStoredState (Obj halfPushUp)) ''exerciseStatsPushUps'')
   \<and> getProp (computeNextState (Obj fivePushUps) (Obj nanPushUps)) ''exerciseStatsPushUps''
       = jsNumber 5"
proof -
  have 1: "getProp (sanitizeStoredState (Obj halfPushUp)) ''exerciseStatsPushUps'' = jsNumber (5 / 2)"
    by (simp add: sanitizeStoredState_counter isCounterKey_def objectOrEmpty_def halfPushUp_def
          normalizeCounter_def normalizeNumberOrNull_def nullishCoalesce_def nullish_def)
  have "\<lfloor>5 / (2 :: rat)\<rfloor> = 2"
    by (rule floor_unique) simp_all
  then have 2: "\<not> isIntegerNumber (jsNumber (5 / 2))"
    by simp
  have 3: "getProp (computeNextState (Obj fivePushUps) (Obj nanPushUps)) ''exerciseStatsPushUps''
       = jsNumber 5"
    by (simp add: computeNextState_counter [where v = "Atom (JNum NaN)"] isCounterKey_def
          nanPushUps_def normalizeCounter_not_finite currentOf_def fivePushUps_def)
  show ?thesis using 1 2 3 by simp
qed

section \<open>Idempotence of the invariant engine\<close>

lemma clampCounter_idem: "clampCounter (clampCounter v) = clampCounter v"
  by (cases v rule: clampCounter.cases) simp_all

lemma clampCounter_fixed: "isNonNegativeNumber v \<Longrightarrow> clampCounter v = v"
  by (cases v rule: clampCounter.cases) simp_all

lemma getProp_enforce_task:
  "getProp (enforceStateValidity m) ''currentTask'' =
     (if truthy (getProp m ''currentTask'') then getProp m ''currentTask'' else jsStr '''')"
  by (simp add: getProp_enforce)

lemma getProp_enforce_isInFlow:
  "getProp (enforceStateValidity m) ''isInFlow'' =
     (if inFlow m then getProp m ''isInFlow'' else jsBool False)"
  by (simp add: getProp_enforce)

lemma getProp_enforce_enabled:
  "getProp (enforceStateValidity m) ''exerciseReminderEnabled'' = getProp m ''exerciseReminderEnabled''"
  by (simp add: getProp_enforce isCounterKey_def)

lemma getProp_enforce_interval:
  "getProp (enforceStateValidity m) ''exerciseIntervalMs'' =
     (if truthy (getProp m ''exerciseReminderEnabled'') \<and> nullish (getProp m ''exerciseIntervalMs'')
      then jsNumber EXERCISE_DEFAULT_INTERVAL_MS else getProp m ''exerciseIntervalMs'')"
  by (simp add: getProp_enforce)

lemma enforce_task:
  "enforceStateValidity m ''currentTask'' =
     (if truthy (getProp m ''currentTask'') then m ''currentTask'' else Some (jsStr ''''))"
  by (simp add: enforce_apply)

lemma enforce_interval:
  "enforceStateValidity m ''exerciseIntervalMs'' =
     (if truthy (getProp m ''exerciseReminderEnabled'') \<and> nullish (getProp m ''exerciseIntervalMs'')
      then Some (jsNumber EXERCISE_DEFAULT_INTERVAL_MS) else m ''exerciseIntervalMs'')"
  by (simp add: enforce_apply)

lemma enforce_flag:
  "k = ''isInFlow'' \<or> k = ''breakReminderEnabled'' \<Longrightarrow>
   enforceStateValidity m k = (if inFlow m then m k else Some (jsBool False))"
  by (auto simp: enforce_apply)

lemma enforce_timer:
  "k = ''reminderStartTime'' \<or> k = ''reminderInterval'' \<or> k = ''reminderExpectedEndTime'' \<Longrightarrow>
   enforceStateValidity m k = (if inFlow m then m k else Some jsNull)"
  by (auto simp: enforce_apply)

lemma enforce_counter:
  "isCounterKey k \<Longrightarrow> enforceStateValidity m k = Some (clampCounter (getProp m k))"
  by (auto simp: enforce_apply isCounterKey_def)

lemma enforce_other:
  "k \<noteq> ''currentTask'' \<Longrightarrow> k \<noteq> ''isInFlow'' \<Longrightarrow> k \<noteq> ''breakReminderEnabled'' \<Longrightarrow>
   k \<noteq> ''reminderStartTime'' \<Longrightarrow> k \<noteq> ''reminderInterval'' \<Longrightarrow> k \<noteq> ''reminderExpectedEndTime'' \<Longrightarrow>
   k \<noteq> ''exerciseIntervalMs'' \<Longrightarrow> \<not> isCounterKey k \<Longrightarrow>
   enforceStateValidity m k = m k"
  by (simp add: enforce_apply)

lemma key_cases:
  obtains (task) "k = ''currentTask''"
    | (flag) "k = ''isInFlow'' \<or> k = ''breakReminderEnabled''"
    | (timer) "k = ''reminderStartTime'' \<or> k = ''reminderInterval'' \<or> k = ''reminderExpectedEndTime''"
    | (interval) "k = ''exerciseIntervalMs''"
    | (counter) "isCounterKey k"
    | (other) "k \<noteq> ''currentTask''" "k \<noteq> ''isInFlow''" "k \<noteq> ''breakReminderEnabled''"
        "k \<noteq> ''reminderStartTime''" "k \<noteq> ''reminderInterval''" "k \<noteq> ''reminderExpectedEndTime''"
        "k \<noteq> ''exerciseIntervalMs''" "\<not> isCounterKey k"
  by blast

lemma enforce_dom: "m k \<noteq> None \<Longrightarrow> enforceStateValidity m k \<noteq> None"
  by (cases k rule: key_cases)
     (simp_all add: enforce_task enforce_flag enforce_timer enforce_interval enforce_counter enforce_other)

text \<open>
  A map that agrees key by key either with \<open>m\<close> or with what the engine made of \<open>m\<close> is
  taken by the engine to the same state as \<open>m\<close>.
\<close>

lemma enforce_absorb:
  assumes mix: "\<And>k. m' k = enforceStateValidity m k \<or> m' k = m k"
  shows "enforceStateValidity m' = enforceStateValidity m"
proof -
  have gp: "getProp m' k = getProp (enforceStateValidity m) k \<or> getProp m' k = getProp m k" for k
    using mix [of k] by (auto simp: getProp_def)
  have task: "truthy (getProp m' ''currentTask'') = truthy (getProp m ''currentTask'')"
    using gp [of "''currentTask''"] unfolding getProp_enforce_task
    by (cases "truthy (getProp m ''currentTask'')") auto
  have flow: "inFlow m' = inFlow m"
  proof (cases "inFlow m")
    case True
    then have "getProp m' ''isInFlow'' = getProp m ''isInFlow''"
      using gp [of "''isInFlow''"] by (auto simp: getProp_enforce_isInFlow)
    then show ?thesis using task by (simp add: inFlow_def)
  next
    case False
    then have "\<not> truthy (getProp m' ''isInFlow'') \<or> \<not> truthy (getProp m ''currentTask'')"
      using gp [of "''isInFlow''"] by (auto simp: getProp_enforce_isInFlow inFlow_def)
    then show ?thesis using task False by (auto simp: inFlow_def)
  qed
  have enabled: "getProp m' ''exerciseReminderEnabled'' = getProp m ''exerciseReminderEnabled''"
    using gp [of "''exerciseReminderEnabled''"] by (auto simp: getProp_enforce_enabled)
  show ?thesis
  proof (rule ext)
    fix k
    show "enforceStateValidity m' k = enforceStateValidity m k"
    proof (cases k rule: key_cases)
      case task
      have "enforceStateValidity m' ''currentTask'' = enforceStateValidity m ''currentTask''"
        using mix [of "''currentTask''"] \<open>truthy (getProp m' ''currentTask'') = truthy (getProp m ''currentTask'')\<close>
        by (auto simp: enforce_task)
      with task show ?thesis by simp
    next
      case flag
      then show ?thesis
        using mix [of k] flow by (auto simp: enforce_flag)
    next
      case timer
      then show ?thesis
        using mix [of k] flow by (auto simp: enforce_timer)
    next
      case interval
      let ?c = "truthy (getProp m ''exerciseReminderEnabled'') \<and> nullish (getProp m ''exerciseIntervalMs'')"
      have "enforceStateValidity m' ''exerciseIntervalMs'' = enforceStateValidity m ''exerciseIntervalMs''"
      proof (cases ?c)
        case True
        from mix [of "''exerciseIntervalMs''"] show ?thesis
        proof
          assume a: "m' ''exerciseIntervalMs'' = enforceStateValidity m ''exerciseIntervalMs''"
          then have "getProp m' ''exerciseIntervalMs'' = jsNumber EXERCISE_DEFAULT_INTERVAL_MS"
            using True by (simp add: getProp_def enforce_interval)
          then show ?thesis using a by (simp add: enforce_interval nullish_def)
        next
          assume a: "m' ''exerciseIntervalMs'' = m ''exerciseIntervalMs''"
          then have "getProp m' ''exerciseIntervalMs'' = getProp m ''exerciseIntervalMs''"
            by (simp add: getProp_def)
          then show ?thesis using True enabled by (simp add: enforce_interval)
        qed
      next
        case False
        then have a: "m' ''exerciseIntervalMs'' = m ''exerciseIntervalMs''"
          using mix [of "''exerciseIntervalMs''"] by (auto simp: enforce_interval)
        then have "getProp m' ''exerciseIntervalMs'' = getProp m ''exerciseIntervalMs''"
          by (simp add: getProp_def)
        then show ?thesis using False enabled a by (auto simp: enforce_interval)
      qed
      with interval show ?thesis by simp
    next
      case counter
      have "clampCounter (getProp m' k) = clampCounter (getProp m k)"
        using gp [of k] counter by (auto simp: getProp_enforce_counter clampCounter_idem)
      with counter show ?thesis
        by (simp add: enforce_counter)
    next
      case other
      then show ?thesis
        using mix [of k] by (auto simp: enforce_other)
    qed
  qed
qed

lemma enforce_idem: "enforceStateValidity (enforceStateValidity m) = enforceStateValidity m"
  by (rule enforce_absorb) simp

lemma truthy_present: "truthy (getProp m k) \<Longrightarrow> m k = Some (getProp m k)"
  by (cases "m k") (simp_all add: getProp_def)

lemma satisfiesInvariants_enforce: "satisfiesInvariants (enforceStateValidity m)"
proof -
  let ?s = "enforceStateValidity m"
  have 1: "?s ''currentTask'' \<noteq> None"
    by (simp add: enforce_task truthy_present)
  have 2: "truthy (getProp ?s ''currentTask'') \<or> getProp ?s ''currentTask'' = jsStr ''''"
    by (simp add: getProp_enforce_task)
  have 3: "\<not> inFlow ?s \<longrightarrow>
            ?s ''isInFlow'' = Some (jsBool False)
            \<and> ?s ''breakReminderEnabled'' = Some (jsBool False)
            \<and> ?s ''reminderStartTime'' = Some jsNull
            \<and> ?s ''reminderInterval'' = Some jsNull
            \<and> ?s ''reminderExpectedEndTime'' = Some jsNull"
    by (simp add: inFlow_enforce enforce_flag enforce_timer)
  have 4: "\<not> (truthy (getProp ?s ''exerciseReminderEnabled'') \<and> nullish (getProp ?s ''exerciseIntervalMs''))"
    by (simp add: getProp_enforce_enabled getProp_enforce_interval nullish_def)
  have 5: "isCounterKey k \<longrightarrow> ?s k \<noteq> None \<and> isNonNegativeNumber (getProp ?s k)" for k
    by (simp add: getProp_enforce_counter clampCounter_nonneg enforce_counter)
  show ?thesis
    unfolding satisfiesInvariants_def using 1 2 3 4 5 by blast
qed

lemma satisfiesInvariants_fixed:
  assumes "satisfiesInvariants s"
  shows "enforceStateValidity s = s"
proof (rule ext)
  fix k
  have task: "s ''currentTask'' \<noteq> None"
      "truthy (getProp s ''currentTask'') \<or> getProp s ''currentTask'' = jsStr ''''"
    and flow: "\<not> inFlow s \<Longrightarrow> s ''isInFlow'' = Some (jsBool False)
            \<and> s ''breakReminderEnabled'' = Some (jsBool False)
            \<and> s ''reminderStartTime'' = Some jsNull
            \<and> s ''reminderInterval'' = Some jsNull
            \<and> s ''reminderExpectedEndTime'' = Some jsNull"
    and interval: "\<not> (truthy (getProp s ''exerciseReminderEnabled'') \<and> nullish (getProp s ''exerciseIntervalMs''))"
    and counter: "\<And>k. isCounterKey k \<Longrightarrow> s k \<noteq> None \<and> isNonNegativeNumber (getProp s k)"
    using assms by (simp_all add: satisfiesInvariants_def)
  have c: "isCounterKey k \<Longrightarrow> Some (clampCounter (getProp s k)) = s k"
    using counter [of k] by (auto simp: clampCounter_fixed getProp_def)
  have t: "\<not> truthy (getProp s ''currentTask'') \<Longrightarrow> s ''currentTask'' = Some (jsStr '''')"
    using task by (auto simp: getProp_def)
  show "enforceStateValidity s k = s k"
  proof (cases k rule: key_cases)
    case task
    then show ?thesis using t by (simp add: enforce_task)
  next
    case flag
    then show ?thesis using flow by (auto simp: enforce_flag)
  next
    case timer
    then show ?thesis using flow by (auto simp: enforce_timer)
  next
    case interval
    then show ?thesis using \<open>\<not> (truthy (getProp s ''exerciseReminderEnabled'') \<and> nullish (getProp s ''exerciseIntervalMs''))\<close>
      by (auto simp: enforce_interval)
  next
    case counter
    then show ?thesis using c by (simp add: enforce_counter)
  next
    case other
    then show ?thesis by (simp add: enforce_other)
  qed
qed

section \<open>Normalizers and the two transitions\<close>

lemma fieldNormalizer_cases:
  assumes "fieldNormalizer k = Some f"
  obtains "f = normalizeTask" | "f = normalizeBoolean" | "f = normalizeSiteList"
    | "f = normalizeNumberOrNull" | "f = normalizeIntervalMs" | "f = normalizeString"
    | "f = normalizeCounter"
proof -
  from assms have "(k, f) \<in> set fieldNormalizers"
    unfolding fieldNormalizer_def by (rule map_of_SomeD)
  then have "f = normalizeTask \<or> f = normalizeBoolean \<or> f = normalizeSiteList
      \<or> f = normalizeNumberOrNull \<or> f = normalizeIntervalMs \<or> f = normalizeString
      \<or> f = normalizeCounter"
    unfolding fieldNormalizers_def by (simp only: set_simps insert_iff empty_iff prod.inject) blast
  then show thesis using that by blast
qed

lemma fieldNormalizer_None:
  "k \<notin> set STATE_KEYS \<Longrightarrow> fieldNormalizer k = None"
  by (simp add: fieldNormalizer_def fieldNormalizers_def STATE_KEYS_def DEFAULT_STATE_def)

lemma normalizeTask_fallback: "acceptsOrFallsBack normalizeTask v"
  by (cases "(v, jsNull)" rule: normalizeTask.cases) (simp_all add: acceptsOrFallsBack_def Let_def)

lemma normalizeBoolean_fallback: "acceptsOrFallsBack normalizeBoolean v"
  by (cases "(v, jsNull)" rule: normalizeBoolean.cases) (simp_all add: acceptsOrFallsBack_def)

lemma normalizeString_fallback: "acceptsOrFallsBack normalizeString v"
  by (cases "(v, jsNull)" rule: normalizeString.cases) (simp_all add: acceptsOrFallsBack_def)

lemma normalizeSiteList_fallback: "acceptsOrFallsBack normalizeSiteList v"
  by (cases v) (simp_all add: acceptsOrFallsBack_def normalizeSiteList_def)

lemma normalizeNumberOrNull_fallback: "acceptsOrFallsBack normalizeNumberOrNull v"
  by (simp add: acceptsOrFallsBack_def normalizeNumberOrNull_def)

lemma normalizeIntervalMs_fallback: "acceptsOrFallsBack normalizeIntervalMs v"
  by (cases "(v, jsNull)" rule: normalizeIntervalMs.cases) (simp_all add: acceptsOrFallsBack_def)

lemma normalizeCounter_fallback: "acceptsOrFallsBack normalizeCounter v"
proof (cases "isFiniteNumber v")
  case True
  then have "normalizeCounter v fb = v" for fb
    by (cases v rule: isFiniteNumber.cases)
       (simp_all add: normalizeCounter_def normalizeNumberOrNull_def nullishCoalesce_def nullish_def)
  then show ?thesis by (simp add: acceptsOrFallsBack_def)
next
  case False
  then show ?thesis by (simp add: acceptsOrFallsBack_def normalizeCounter_not_finite)
qed

lemma fieldNormalizer_fallback:
  "fieldNormalizer k = Some f \<Longrightarrow> acceptsOrFallsBack f v"
  by (erule fieldNormalizer_cases)
     (simp_all add: normalizeTask_fallback normalizeBoolean_fallback normalizeString_fallback
        normalizeSiteList_fallback normalizeNumberOrNull_fallback normalizeIntervalMs_fallback
        normalizeCounter_fallback)

lemma sanitizeUpdates_None:
  "u k = None \<or> fieldNormalizer k = None \<Longrightarrow> sanitizeUpdates cur u k = None"
  by (auto simp: sanitizeUpdates_def split: option.splits)

lemma sanitizeUpdates_Some:
  "u k = Some v \<Longrightarrow> fieldNormalizer k = Some f \<Longrightarrow>
   sanitizeUpdates cur u k = Some (f v (getProp cur k))"
  by (simp add: sanitizeUpdates_def)

text \<open>Applying the same patch to the result of the transition changes nothing.\<close>

lemma computeNextState_idem_Obj:
  "computeNextState (Obj (computeNextState c (Obj u))) (Obj u) = computeNextState c (Obj u)"
proof -
  let ?cur = "currentOf c"
  let ?m1 = "?cur ++ sanitizeUpdates ?cur u"
  let ?s1 = "enforceStateValidity ?m1"
  let ?m2 = "?s1 ++ sanitizeUpdates ?s1 u"
  have mix: "?m2 k = enforceStateValidity ?m1 k \<or> ?m2 k = ?m1 k" for k
  proof (cases "u k = None \<or> fieldNormalizer k = None")
    case True
    then show ?thesis by (simp add: map_add_def sanitizeUpdates_None)
  next
    case False
    then obtain v f where v: "u k = Some v" and f: "fieldNormalizer k = Some f" by auto
    have m1: "?m1 k = Some (f v (getProp ?cur k))"
      by (simp add: map_add_def sanitizeUpdates_def v f)
    have m2: "?m2 k = Some (f v (getProp ?s1 k))"
      by (simp add: map_add_def sanitizeUpdates_def v f)
    from fieldNormalizer_fallback [OF f, of v]
    consider "\<forall>fb fb'. f v fb = f v fb'" | "\<forall>fb. f v fb = fb"
      unfolding acceptsOrFallsBack_def by blast
    then show ?thesis
    proof cases
      case 1
      then have "f v (getProp ?s1 k) = f v (getProp ?cur k)" by blast
      then show ?thesis using m1 m2 by simp
    next
      case 2
      have "?s1 k \<noteq> None" using m1 by (intro enforce_dom) simp
      then have "?s1 k = Some (getProp ?s1 k)" by (auto simp: getProp_def)
      then show ?thesis using m2 2 by simp
    qed
  qed
  have "enforceStateValidity ?m2 = enforceStateValidity ?m1"
    by (rule enforce_absorb) (rule mix)
  then show ?thesis
    by (simp add: computeNextState_Obj currentOf_def)
qed

lemma computeNextState_idem:
  "computeNextState (Obj (computeNextState c p)) p = computeNextState c p"
  by (cases p) (simp_all add: computeNextState_idem_Obj computeNextState_NotObj currentOf_def)

section \<open>The diff\<close>

lemma list_all2_strictEqAtom:
  "JNum NaN \<notin> set b \<Longrightarrow> list_all2 strictEqAtom a b = (a = b)"
proof (induction a arbitrary: b)
  case Nil
  then show ?case by auto
next
  case (Cons x a)
  then show ?case by (cases b) (auto simp: strictEqAtom_def)
qed

lemma differs_iff:
  assumes "selfIdentical v"
  shows "(case v of JArr b \<Rightarrow> \<not> areStringArraysEqual pv v | Atom b \<Rightarrow> strictNotEqual pv b) = (pv \<noteq> v)"
proof (cases v)
  case (Atom b)
  with assms show ?thesis by (cases pv) (auto simp: strictEqAtom_def)
next
  case (JArr b)
  with assms show ?thesis by (cases pv) (auto simp: list_all2_strictEqAtom)
qed

lemma diffState_apply:
  "diffState (Obj prev) (Obj next) k =
     (case next k of
        None \<Rightarrow> None
      | Some v \<Rightarrow>
          if (case v of JArr b \<Rightarrow> \<not> areStringArraysEqual (getProp prev k) v
                      | Atom b \<Rightarrow> strictNotEqual (getProp prev k) b)
          then Some v else None)"
  by (simp add: diffState_def Let_def split: option.splits jsval.splits)

lemma diffState_nanFree:
  assumes "nanFree next"
  shows "diffState (Obj prev) (Obj next) k =
           (case next k of None \<Rightarrow> None
            | Some v \<Rightarrow> if getProp prev k = v then None else Some v)"
proof (cases "next k")
  case None
  then show ?thesis by (simp add: diffState_apply)
next
  case (Some v)
  with assms have "selfIdentical v" by (auto simp: nanFree_def)
  from differs_iff [OF this, of "getProp prev k"] Some show ?thesis
    by (simp add: diffState_apply)
qed

lemma diffState_self: "nanFree s \<Longrightarrow> diffState (Obj s) (Obj s) = Map.empty"
  by (rule ext) (simp add: diffState_nanFree getProp_def split: option.splits)

section \<open>States without \<open>NaN\<close>\<close>

lemma selfIdentical_clampCounter: "selfIdentical (clampCounter v)"
  by (cases v rule: clampCounter.cases) simp_all

lemma selfIdentical_getProp: "nanFree m \<Longrightarrow> selfIdentical (getProp m k)"
  by (cases "m k") (auto simp: nanFree_def getProp_def)

lemma selfIdentical_normalizer:
  assumes "fieldNormalizer k = Some f" and "selfIdentical fb"
  shows "selfIdentical (f v fb)"
  using assms(1)
proof (cases rule: fieldNormalizer_cases)
  case 1
  then show ?thesis using assms(2)
    by (cases "(v, fb)" rule: normalizeTask.cases) (simp_all add: Let_def)
next
  case 2
  then show ?thesis using assms(2)
    by (cases "(v, fb)" rule: normalizeBoolean.cases) simp_all
next
  case 3
  then show ?thesis using assms(2)
    by (cases v) (auto simp: normalizeSiteList_def)
next
  case 4
  then show ?thesis using assms(2)
    by (cases v rule: isFiniteNumber.cases) (simp_all add: normalizeNumberOrNull_def)
next
  case 5
  then show ?thesis using assms(2)
    by (cases "(v, fb)" rule: normalizeIntervalMs.cases) simp_all
next
  case 6
  then show ?thesis using assms(2)
    by (cases "(v, fb)" rule: normalizeString.cases) simp_all
next
  case 7
  then show ?thesis using assms(2)
    by (cases v rule: isFiniteNumber.cases)
       (simp_all add: normalizeCounter_def normalizeNumberOrNull_def nullishCoalesce_def)
qed

lemma nanFree_enforce:
  assumes "nanFree m"
  shows "nanFree (enforceStateValidity m)"
  unfolding nanFree_def
proof (intro allI impI)
  fix k v
  assume kv: "enforceStateValidity m k = Some v"
  have m: "m k = Some v \<Longrightarrow> selfIdentical v"
    using assms by (auto simp: nanFree_def)
  show "selfIdentical v"
  proof (cases k rule: key_cases)
    case task
    then show ?thesis using kv m by (auto simp: enforce_task split: if_splits)
  next
    case flag
    then show ?thesis using kv m by (auto simp: enforce_flag split: if_splits)
  next
    case timer
    then show ?thesis using kv m by (auto simp: enforce_timer split: if_splits)
  next
    case interval
    then show ?thesis using kv m by (auto simp: enforce_interval split: if_splits)
  next
    case counter
    then show ?thesis using kv by (auto simp: enforce_counter selfIdentical_clampCounter)
  next
    case other
    then show ?thesis using kv m by (simp add: enforce_other)
  qed
qed

lemma nanFree_default: "nanFree getDefaultState"
  unfolding nanFree_def getDefaultState_def
proof (intro allI impI)
  fix k v
  assume "map_of DEFAULT_STATE k = Some v"
  then have "(k, v) \<in> set DEFAULT_STATE" by (rule map_of_SomeD)
  then show "selfIdentical v"
    unfolding DEFAULT_STATE_def by (simp only: set_simps insert_iff empty_iff prod.inject) auto
qed

lemma nanFree_merge:
  assumes "nanFree cur" and "\<And>k w. upd k = Some w \<Longrightarrow> selfIdentical w"
  shows "nanFree (cur ++ upd)"
  using assms by (auto simp: nanFree_def map_add_def split: option.splits)

lemma nanFree_computeNextState:
  assumes "nanFree (currentOf c)"
  shows "nanFree (computeNextState c p)"
proof (cases p)
  case NotObj
  then show ?thesis using assms by (simp add: computeNextState_NotObj)
next
  case (Obj u)
  have "selfIdentical w" if "sanitizeUpdates (currentOf c) u k = Some w" for k w
    using that selfIdentical_normalizer [of k _ "getProp (currentOf c) k"]
      selfIdentical_getProp [OF assms, of k]
    by (auto simp: sanitizeUpdates_def split: option.splits)
  then have "nanFree (currentOf c ++ sanitizeUpdates (currentOf c) u)"
    using assms by (intro nanFree_merge)
  then show ?thesis using Obj by (simp add: computeNextState_Obj nanFree_enforce)
qed

lemma nanFree_sanitizeStoredState: "nanFree (sanitizeStoredState a)"
proof -
  let ?merged = "\<lambda>k. case fieldNormalizer k of None \<Rightarrow> None
      | Some f \<Rightarrow> Some (f (getProp (objectOrEmpty a) k) (getProp getDefaultState k))"
  have "selfIdentical w" if "?merged k = Some w" for k w
    using that selfIdentical_normalizer [of k _ "getProp getDefaultState k"]
      selfIdentical_getProp [OF nanFree_default, of k]
    by (auto split: option.splits)
  then have "nanFree (getDefaultState ++ ?merged)"
    using nanFree_default by (intro nanFree_merge)
  then have "nanFree (enforceStateValidity (getDefaultState ++ ?merged))"
    by (rule nanFree_enforce)
  then show ?thesis
    unfolding sanitizeStoredState_def enforceStateInvariants_def Let_def objectOrEmpty_def .
qed

section \<open>Claims about idempotence and the diff\<close>

lemma nanFree_upd: "nanFree m \<Longrightarrow> selfIdentical v \<Longrightarrow> nanFree (m(k \<mapsto> v))"
  by (auto simp: nanFree_def)

text \<open>
  C3. For every current state and every patch, \<open>computeNextState\<close> applied again with the
  same patch to its own result returns that result. When the current state holds no
  \<open>NaN\<close> (every state of the schema: strings, booleans, \<open>null\<close>, finite numbers and string
  arrays), \<open>diffState\<close> of the second result against the first is empty.
\<close>

theorem computeNextState_idempotent:
  "computeNextState (Obj (computeNextState s p)) p = computeNextState s p
   \<and> (nanFree (currentOf s) \<longrightarrow>
        diffState (Obj (computeNextState s p))
                  (Obj (computeNextState (Obj (computeNextState s p)) p)) = Map.empty)"
  by (simp add: computeNextState_idem diffState_self nanFree_computeNextState)

theorem computeNextState_idempotent_witness:
  "nanFree (currentOf (Obj getDefaultState))
   \<and> computeNextState (Obj (computeNextState (Obj getDefaultState) (Obj startFlowPatch)))
        (Obj startFlowPatch)
       = computeNextState (Obj getDefaultState) (Obj startFlowPatch)
   \<and> diffState (Obj (computeNextState (Obj getDefaultState) (Obj startFlowPatch)))
        (Obj (computeNextState (Obj (computeNextState (Obj getDefaultState) (Obj startFlowPatch)))
               (Obj startFlowPatch)))
       = Map.empty"
proof -
  have h: "nanFree (currentOf (Obj getDefaultState))"
    by (simp add: currentOf_def nanFree_default)
  from computeNextState_idempotent [of "Obj getDefaultState" "Obj startFlowPatch"]
  show ?thesis using h by blast
qed

text \<open>
  C5. For a next state that holds no \<open>NaN\<close>, \<open>diffState(prev, next)\<close> holds a field of
  \<open>next\<close> exactly when its value differs from the one in \<open>prev\<close> (a field missing from
  \<open>prev\<close> reads as \<open>undefined\<close>), and it holds it with the value of \<open>next\<close>. Arrays are
  compared by their elements: two objects whose \<open>sites\<close> arrays both hold \<open>"a.com"\<close> have an
  empty diff.
\<close>

theorem diffState_exact:
  "(nanFree next \<longrightarrow>
      diffState (Obj prev) (Obj next) k =
        (if k \<in> dom next \<and> getProp prev k \<noteq> getProp next k then next k else None))
   \<and> diffState (Obj [''sites'' \<mapsto> jsStrArr [''a.com'']]) (Obj [''sites'' \<mapsto> jsStrArr [''a.com'']])
       = Map.empty"
proof -
  have "nanFree [''sites'' \<mapsto> jsStrArr [''a.com'']]"
    by (auto simp: nanFree_def split: if_splits)
  then have "diffState (Obj [''sites'' \<mapsto> jsStrArr [''a.com'']]) (Obj [''sites'' \<mapsto> jsStrArr [''a.com'']])
       = Map.empty"
    by (rule diffState_self)
  moreover have "nanFree next \<longrightarrow>
      diffState (Obj prev) (Obj next) k =
        (if k \<in> dom next \<and> getProp prev k \<noteq> getProp next k then next k else None)"
    by (auto simp: diffState_nanFree getProp_def [of "next"] split: option.splits)
  ultimately show ?thesis by blast
qed

theorem diffState_exact_witness:
  "nanFree fivePushUps
   \<and> diffState (Obj getDefaultState) (Obj fivePushUps) ''exerciseStatsPushUps'' = Some (jsNumber 5)
   \<and> diffState (Obj getDefaultState) (Obj fivePushUps) ''currentTask'' = None"
proof -
  have h: "nanFree fivePushUps"
    unfolding fivePushUps_def by (rule nanFree_upd [OF nanFree_default]) simp
  have a: "fivePushUps ''exerciseStatsPushUps'' = Some (jsNumber 5)"
    by (simp add: fivePushUps_def)
  have b: "getProp fivePushUps ''currentTask'' = getProp getDefaultState ''currentTask''"
    by (simp add: fivePushUps_def)
  show ?thesis
    using h a b
      diffState_exact [of fivePushUps getDefaultState "''exerciseStatsPushUps''"]
      diffState_exact [of fivePushUps getDefaultState "''currentTask''"]
    by (simp add: getProp_def [of fivePushUps "''exerciseStatsPushUps''"] getDefaultState_simps
          domIff)
qed

text \<open>
  C10 (as the code has it). Every result of \<open>sanitizeStoredState\<close> satisfies the validity
  invariants and holds no \<open>NaN\<close>. Every result of \<open>computeNextState\<close> with an object patch
  satisfies the invariants; with any patch, the result satisfies them when the current
  state did, and holds no \<open>NaN\<close> when the current state held none. On a state that
  satisfies the invariants, \<open>computeNextState\<close> with a patch that is not an object, or is
  an object without any schema key, returns that same state; when the state holds no
  \<open>NaN\<close> the diff against it is empty. The source of \<open>computeNextState\<close> has no throwing
  step on plain data, so its model has no error branch.
\<close>

theorem computeNextState_ignores_unknown_keys:
  "satisfiesInvariants (sanitizeStoredState a) \<and> nanFree (sanitizeStoredState a)
   \<and> satisfiesInvariants (computeNextState c (Obj u0))
   \<and> (satisfiesInvariants (currentOf c) \<longrightarrow> satisfiesInvariants (computeNextState c p0))
   \<and> (nanFree (currentOf c) \<longrightarrow> nanFree (computeNextState c p0))
   \<and> (satisfiesInvariants s
        \<and> (p = NotObj \<or> (\<exists>u. p = Obj u \<and> dom u \<inter> set STATE_KEYS = {}))
        \<longrightarrow> computeNextState (Obj s) p = s)
   \<and> (satisfiesInvariants s \<and> nanFree s
        \<and> (p = NotObj \<or> (\<exists>u. p = Obj u \<and> dom u \<inter> set STATE_KEYS = {}))
        \<longrightarrow> diffState (Obj s) (Obj (computeNextState (Obj s) p)) = Map.empty)"
proof -
  have 1: "satisfiesInvariants (sanitizeStoredState a)"
    using sanitizeStoredState_enforce [of a] by (auto simp: satisfiesInvariants_enforce)
  have 2: "satisfiesInvariants (computeNextState c (Obj u))" for u
    by (simp add: computeNextState_Obj satisfiesInvariants_enforce)
  have 3: "computeNextState (Obj s) p = s"
    if inv: "satisfiesInvariants s"
      and p: "p = NotObj \<or> (\<exists>u. p = Obj u \<and> dom u \<inter> set STATE_KEYS = {})"
  proof (cases p)
    case NotObj
    then show ?thesis by (simp add: computeNextState_NotObj currentOf_def)
  next
    case (Obj u)
    with p have none: "\<forall>k \<in> set STATE_KEYS. u k = None" by auto
    have "u k = None \<or> fieldNormalizer k = None" for k
      using none fieldNormalizer_None [of k] by (cases "k \<in> set STATE_KEYS") auto
    then have "sanitizeUpdates s u k = None" for k
      by (rule sanitizeUpdates_None)
    then have "sanitizeUpdates s u = Map.empty" by (intro ext)
    then show ?thesis
      using Obj inv by (simp add: computeNextState_Obj currentOf_def satisfiesInvariants_fixed)
  qed
  have 4: "satisfiesInvariants (computeNextState c p0)" if "satisfiesInvariants (currentOf c)"
    using that 2 by (cases p0) (simp_all add: computeNextState_NotObj)
  have 5: "diffState (Obj s) (Obj (computeNextState (Obj s) p)) = Map.empty"
    if "satisfiesInvariants s" "nanFree s"
      "p = NotObj \<or> (\<exists>u. p = Obj u \<and> dom u \<inter> set STATE_KEYS = {})"
    using 3 [OF that(1,3)] that(2) by (simp add: diffState_self)
  show ?thesis
    using 1 2 [of u0] 3 4 5 nanFree_sanitizeStoredState [of a] nanFree_computeNextState [of c p0]
    by blast
qed

theorem computeNextState_ignores_unknown_keys_witness:
  "satisfiesInvariants (sanitizeStoredState NotObj) \<and> nanFree (sanitizeStoredState NotObj)
   \<and> dom unknownKeyPatch \<inter> set STATE_KEYS = {}
   \<and> currentOf (Obj (sanitizeStoredState NotObj)) = sanitizeStoredState NotObj
   \<and> satisfiesInvariants (computeNextState (Obj (sanitizeStoredState NotObj)) NotObj)
   \<and> nanFree (computeNextState (Obj (sanitizeStoredState NotObj)) NotObj)
   \<and> computeNextState (Obj (sanitizeStoredState NotObj)) (Obj unknownKeyPatch)
       = sanitizeStoredState NotObj
   \<and> computeNextState (Obj (sanitizeStoredState NotObj)) NotObj = sanitizeStoredState NotObj
   \<and> diffState (Obj (sanitizeStoredState NotObj))
        (Obj (computeNextState (Obj (sanitizeStoredState NotObj)) (Obj unknownKeyPatch)))
       = Map.empty"
proof -
  let ?s = "sanitizeStoredState NotObj"
  have h1: "dom unknownKeyPatch \<inter> set STATE_KEYS = {}"
    by (simp add: STATE_KEYS_def DEFAULT_STATE_def unknownKeyPatch_def)
  have h2: "currentOf (Obj ?s) = ?s"
    by (simp add: currentOf_def)
  note a = computeNextState_ignores_unknown_keys
    [where a = NotObj and c = "Obj ?s" and ?u0.0 = Map.empty and ?p0.0 = NotObj
       and s = ?s and p = "Obj unknownKeyPatch", unfolded h2]
  note b = computeNextState_ignores_unknown_keys
    [where a = NotObj and c = "Obj ?s" and ?u0.0 = Map.empty and ?p0.0 = NotObj
       and s = ?s and p = NotObj, unfolded h2]
  from a have i: "satisfiesInvariants ?s" and n: "nanFree ?s"
    by blast+
  from a i n have c1: "satisfiesInvariants (computeNextState (Obj ?s) NotObj)"
    and c2: "nanFree (computeNextState (Obj ?s) NotObj)"
    by blast+
  from a i n h1 have c3: "computeNextState (Obj ?s) (Obj unknownKeyPatch) = ?s"
    and c4: "diffState (Obj ?s) (Obj (computeNextState (Obj ?s) (Obj unknownKeyPatch))) = Map.empty"
    by blast+
  from b i have c5: "computeNextState (Obj ?s) NotObj = ?s"
    by blast
  show ?thesis
    using i n h1 h2 c1 c2 c3 c4 c5 by blast
qed

text \<open>
  C10 as stated fails for two results of \<open>computeNextState\<close>. With a patch that is not an
  object the result is the current state as it came: from the default state with
  \<open>isInFlow\<close> set, it is in flow without a task, does not satisfy the invariants, and an
  empty patch changes it (the diff holds \<open>isInFlow: false\<close>). With an object patch the
  result satisfies the invariants but keeps a \<open>NaN\<close> of the current state, and the diff of
  that state against itself, as a patch that is not an object returns it, is not empty.
\<close>

theorem computeNextState_ignores_unknown_keys_counterexample:
  "\<not> satisfiesInvariants (computeNextState (Obj inFlowWithoutTask) NotObj)
   \<and> dom emptyPatch \<inter> set STATE_KEYS = {}
   \<and> computeNextState (Obj (computeNextState (Obj inFlowWithoutTask) NotObj)) (Obj emptyPatch)
       \<noteq> computeNextState (Obj inFlowWithoutTask) NotObj
   \<and> diffState (Obj (computeNextState (Obj inFlowWithoutTask) NotObj))
        (Obj (computeNextState (Obj (computeNextState (Obj inFlowWithoutTask) NotObj))
               (Obj emptyPatch))) ''isInFlow''
       = Some (jsBool False)
   \<and> satisfiesInvariants (computeNextState (Obj nanShownAt) (Obj emptyPatch))
   \<and> computeNextState (Obj (computeNextState (Obj nanShownAt) (Obj emptyPatch))) NotObj
       = computeNextState (Obj nanShownAt) (Obj emptyPatch)
   \<and> diffState (Obj (computeNextState (Obj nanShownAt) (Obj emptyPatch)))
        (Obj (computeNextState (Obj (computeNextState (Obj nanShownAt) (Obj emptyPatch))) NotObj))
        ''mindfulnessLastShownAt''
       = Some (Atom (JNum NaN))"
proof -
  let ?s = "computeNextState (Obj inFlowWithoutTask) NotObj"
  let ?n = "computeNextState (Obj nanShownAt) (Obj emptyPatch)"
  have s: "?s = inFlowWithoutTask"
    by (simp add: computeNextState_NotObj currentOf_def)
  have flow: "getProp inFlowWithoutTask ''isInFlow'' = jsBool True"
    and task: "getProp inFlowWithoutTask ''currentTask'' = jsStr ''''"
    by (simp_all add: inFlowWithoutTask_def getDefaultState_simps)
  have nf: "\<not> inFlow inFlowWithoutTask"
    by (simp add: inFlow_def task)
  have 1: "\<not> satisfiesInvariants inFlowWithoutTask"
    using nf by (simp add: satisfiesInvariants_def inFlowWithoutTask_def)
  have 2: "dom emptyPatch \<inter> set STATE_KEYS = {}"
    by (simp add: emptyPatch_def)
  have e: "computeNextState (Obj m) (Obj emptyPatch) = enforceStateValidity m" for m
    by (simp add: computeNextState_Obj currentOf_def emptyPatch_def sanitizeUpdates_def)
  have f: "enforceStateValidity inFlowWithoutTask ''isInFlow'' = Some (jsBool False)"
    using nf by (simp add: enforce_flag)
  have g: "inFlowWithoutTask ''isInFlow'' = Some (jsBool True)"
    by (simp add: inFlowWithoutTask_def)
  have 3: "enforceStateValidity inFlowWithoutTask \<noteq> inFlowWithoutTask"
    using f g by (metis jsatom.inject(1) jsval.inject(1) option.inject)
  have 4: "diffState (Obj inFlowWithoutTask) (Obj (enforceStateValidity inFlowWithoutTask)) ''isInFlow''
      = Some (jsBool False)"
    by (simp add: diffState_apply f flow strictEqAtom_def)
  have 5: "satisfiesInvariants (enforceStateValidity nanShownAt)"
    by (rule satisfiesInvariants_enforce)
  have 6: "computeNextState (Obj (enforceStateValidity nanShownAt)) NotObj = enforceStateValidity nanShownAt"
    by (simp add: computeNextState_NotObj currentOf_def)
  have h: "enforceStateValidity nanShownAt ''mindfulnessLastShownAt'' = Some (Atom (JNum NaN))"
    by (simp add: enforce_other isCounterKey_def nanShownAt_def)
  have 7: "diffState (Obj (enforceStateValidity nanShownAt)) (Obj (enforceStateValidity nanShownAt))
        ''mindfulnessLastShownAt'' = Some (Atom (JNum NaN))"
    by (simp add: diffState_apply h strictEqAtom_def
          getProp_def [of "enforceStateValidity nanShownAt" "''mindfulnessLastShownAt''"])
  show ?thesis
    unfolding s e 6 using 1 2 3 4 5 7 by blast
qed

section \<open>Hostname normalization\<close>

lemma includesStr_iff: "includesStr s p = (\<exists>pre post. s = pre @ p @ post)"
proof (induction s)
  case Nil
  then show ?case by auto
next
  case (Cons c cs)
  show ?case
  proof
    assume "includesStr (c # cs) p"
    then consider "prefix p (c # cs)" | "includesStr cs p" by auto
    then show "\<exists>pre post. c # cs = pre @ p @ post"
    proof cases
      case 1
      then obtain post where "c # cs = p @ post" by (auto simp: prefix_def)
      then have "c # cs = [] @ p @ post" by simp
      then show ?thesis by blast
    next
      case 2
      with Cons obtain pre post where "cs = pre @ p @ post" by blast
      then have "c # cs = (c # pre) @ p @ post" by simp
      then show ?thesis by blast
    qed
  next
    assume "\<exists>pre post. c # cs = pre @ p @ post"
    then obtain pre post where eq: "c # cs = pre @ p @ post" by blast
    show "includesStr (c # cs) p"
    proof (cases pre)
      case Nil
      with eq have "prefix p (c # cs)" by (simp add: prefix_def)
      then show ?thesis by simp
    next
      case (Cons a pre')
      with eq have "cs = pre' @ p @ post" by simp
      with Cons.IH have "includesStr cs p" by blast
      then show ?thesis by simp
    qed
  qed
qed

lemma prefix_single: "prefix [c] s = (s \<noteq> [] \<and> hd s = c)"
  by (cases s) auto

lemma suffix_single: "suffix [c] s = (s \<noteq> [] \<and> last s = c)"
proof (cases s rule: rev_cases)
  case Nil
  then show ?thesis by simp
next
  case (snoc ys y)
  then show ?thesis by (auto simp: suffix_def)
qed

lemma hostChar_lower: "isHostChar c \<Longrightarrow> toLowerChar c = c"
  by (auto simp: isHostChar_def toLowerChar_def Let_def)

lemma hostChars_lower: "\<forall>c \<in> set h. isHostChar c \<Longrightarrow> toLowerCase h = h"
  by (induction h) (simp_all add: toLowerCase_def hostChar_lower)

lemma not_hostChar:
  "\<not> isHostChar (CHR ''/'')" "\<not> isHostChar (CHR ''?'')" "\<not> isHostChar (CHR ''#'')"
  "\<not> isHostChar (CHR '':'')"
  by (simp_all add: isHostChar_def)

lemma validHostname_normalized:
  assumes "isValidHostname h"
  shows "isNormalizedHostname h"
proof -
  from assms have ne: "h \<noteq> []" and len: "length h \<le> 253" and dot: "CHR ''.'' \<in> set h"
    and lead: "\<not> prefix ''.'' h" and trail: "\<not> suffix ''.'' h"
    and dbl: "\<not> includesStr h ''..''" and chars: "\<forall>c \<in> set h. isHostChar c"
    by (auto simp: isValidHostname_def)
  have slash: "CHR ''/'' \<notin> set h" "CHR ''?'' \<notin> set h" "CHR ''#'' \<notin> set h" "CHR '':'' \<notin> set h"
    using chars not_hostChar by blast+
  have "\<not> prefix ''http://'' h"
  proof
    assume "prefix ''http://'' h"
    then have "set ''http://'' \<subseteq> set h" by (rule set_mono_prefix)
    with slash show False by simp
  qed
  moreover have "\<not> prefix ''https://'' h"
  proof
    assume "prefix ''https://'' h"
    then have "set ''https://'' \<subseteq> set h" by (rule set_mono_prefix)
    with slash show False by simp
  qed
  moreover have "hd h \<noteq> CHR ''.''" using lead ne by (simp add: prefix_single)
  moreover have "last h \<noteq> CHR ''.''" using trail ne by (simp add: suffix_single)
  moreover have "\<not> containsDoubledDot h" using dbl by (simp add: includesStr_iff containsDoubledDot_def)
  ultimately show ?thesis
    using ne len dot chars slash
    by (simp add: isNormalizedHostname_def matchesHostPattern_def hostChars_lower)
qed

lemma normalizeDomainEntry_valid:
  "normalizeDomainEntry x = Some h \<Longrightarrow> isValidHostname h"
  by (cases x) (auto simp: Let_def split: if_splits)

lemma normalizeDomainEntry_www:
  assumes "normalizeDomainEntry x = Some h" and "prefix ''www.'' h"
  shows "\<exists>raw. x = JStr raw \<and> prefix ''www.www.'' (stripProtocol (toLowerCase (trim raw)))"
proof -
  from assms(1) obtain raw where x: "x = JStr raw"
    and h: "h = domainOfRaw (toLowerCase (trim raw))"
    by (cases x) (auto simp: Let_def split: if_splits)
  let ?p = "stripProtocol (toLowerCase (trim raw))"
  let ?y = "splitFirst (CHR ''#'') (splitFirst (CHR ''?'') (splitFirst (CHR ''/'') ?p))"
  have hy: "h = stripPrefix ''www.'' ?y"
    using h by (simp add: domainOfRaw_def)
  have "prefix ''www.'' ?y"
  proof (rule ccontr)
    assume "\<not> prefix ''www.'' ?y"
    then have "h = ?y" using hy by (simp add: stripPrefix_def)
    with assms(2) \<open>\<not> prefix ''www.'' ?y\<close> show False by simp
  qed
  then obtain rest where y: "?y = ''www.'' @ rest" by (auto simp: prefix_def)
  then have "h = rest" using hy by (simp add: stripPrefix_def)
  with assms(2) obtain rest' where "rest = ''www.'' @ rest'" by (auto simp: prefix_def)
  with y have "prefix ''www.www.'' ?y" by (simp add: prefix_def)
  moreover have "prefix ?y ?p"
    unfolding splitFirst_def
    by (meson prefix_order.trans takeWhile_is_prefix)
  ultimately have "prefix ''www.www.'' ?p" by (rule prefix_order.trans)
  with x show ?thesis by blast
qed

lemma normalizeDomainLoop_props:
  assumes "seen = set out" and "distinct out" and "length out < n"
  shows "distinct (normalizeDomainLoop n xs out seen)
         \<and> length (normalizeDomainLoop n xs out seen) \<le> n
         \<and> set (normalizeDomainLoop n xs out seen) \<subseteq> set out \<union> hostnamesOf xs
         \<and> (length (normalizeDomainLoop n xs out seen) < n
              \<longrightarrow> set (normalizeDomainLoop n xs out seen) = set out \<union> hostnamesOf xs)"
  using assms
proof (induction xs arbitrary: out seen)
  case Nil
  then show ?case by (simp add: hostnamesOf_def)
next
  case (Cons x xs)
  show ?case
  proof (cases "normalizeDomainEntry x")
    case None
    then have "hostnamesOf (x # xs) = hostnamesOf xs"
      by (auto simp: hostnamesOf_def)
    with Cons.IH [OF Cons.prems] None show ?thesis by simp
  next
    case (Some h)
    then have hs: "hostnamesOf (x # xs) = insert h (hostnamesOf xs)"
      by (auto simp: hostnamesOf_def)
    show ?thesis
    proof (cases "h \<in> seen")
      case True
      with Cons.IH [OF Cons.prems] Some hs Cons.prems(1) show ?thesis by auto
    next
      case notseen: False
      show ?thesis
      proof (cases "length (out @ [h]) \<ge> n")
        case True
        with Some notseen Cons.prems hs show ?thesis by auto
      next
        case False
        have "insert h seen = set (out @ [h])" "distinct (out @ [h])" "length (out @ [h]) < n"
          using Cons.prems notseen False by auto
        from Cons.IH [OF this] Some notseen False hs show ?thesis by auto
      qed
    qed
  qed
qed

lemma normalizeSiteList_props:
  "\<exists>ys. normalizeSiteList (JArr xs) fallback = jsStrArr ys \<and> normalizedSiteList xs ys"
proof -
  define out where "out = normalizeDomainLoop MAX_SITE_LIST_ITEMS xs [] {}"
  define ys where "ys = sort out"
  have pre: "{} = set ([] :: string list)" "distinct ([] :: string list)"
      "length ([] :: string list) < MAX_SITE_LIST_ITEMS"
    by (simp_all add: MAX_SITE_LIST_ITEMS_def)
  from normalizeDomainLoop_props [OF pre, of xs]
  have loop: "distinct out" "length out \<le> 200" "set out \<subseteq> hostnamesOf xs"
      "length out < 200 \<longrightarrow> set out = hostnamesOf xs"
    unfolding out_def [symmetric] by (simp_all add: MAX_SITE_LIST_ITEMS_def)
  have ys: "set ys = set out" "length ys = length out" "distinct ys" "sorted ys"
    using loop(1) by (simp_all add: ys_def)
  have entry: "isNormalizedHostname h \<and> h \<in> hostnamesOf xs
        \<and> (prefix ''www.'' h \<longrightarrow> hasRepeatedWww xs)" if "h \<in> set ys" for h
  proof -
    from that loop(3) ys(1) have in_hosts: "h \<in> hostnamesOf xs" by auto
    then obtain x where x: "x \<in> set xs" "normalizeDomainEntry x = Some h"
      by (auto simp: hostnamesOf_def)
    have "isValidHostname h"
      using x(2) by (rule normalizeDomainEntry_valid)
    then have "isNormalizedHostname h"
      by (rule validHostname_normalized)
    moreover have "hasRepeatedWww xs" if "prefix ''www.'' h"
      using normalizeDomainEntry_www [OF x(2) that] x(1) by (auto simp: hasRepeatedWww_def)
    ultimately show ?thesis using in_hosts by blast
  qed
  have "normalizedSiteList xs ys"
    unfolding normalizedSiteList_def using entry loop(2,4) ys by metis
  moreover have "normalizeSiteList (JArr xs) fallback = jsStrArr ys"
    by (simp add: normalizeSiteList_def ys_def out_def)
  ultimately show ?thesis by blast
qed

lemma getProp_enforce_siteList:
  assumes "isSiteListKey k"
  shows "getProp (enforceStateValidity m) k = getProp m k"
proof -
  have "enforceStateValidity m k = m k"
    using assms unfolding isSiteListKey_def
    by (elim disjE; intro enforce_other) (simp_all add: isCounterKey_def)
  then show ?thesis by (simp add: getProp_def)
qed

lemma fieldNormalizer_siteList: "isSiteListKey k \<Longrightarrow> fieldNormalizer k = Some normalizeSiteList"
  by (auto simp: isSiteListKey_def fieldNormalizer_simps)

lemma sanitizeStoredState_siteList:
  assumes "isSiteListKey k"
  shows "getProp (sanitizeStoredState a) k =
           normalizeSiteList (getProp (objectOrEmpty a) k) (getProp getDefaultState k)"
  using assms
  by (simp add: sanitizeStoredState_def enforceStateInvariants_def Let_def getProp_enforce_siteList
        getProp_map_add fieldNormalizer_siteList objectOrEmpty_def)

lemma computeNextState_siteList:
  assumes "isSiteListKey k" and "u k = Some v"
  shows "getProp (computeNextState c (Obj u)) k = normalizeSiteList v (getProp (currentOf c) k)"
  using assms
  by (simp add: computeNextState_Obj getProp_enforce_siteList getProp_map_add sanitizeUpdates_def
        fieldNormalizer_siteList)

section \<open>Claim about the site lists\<close>

lemma normalizeSiteList_fallback_free:
  "normalizeSiteList (JArr xs) fallback = normalizeSiteList (JArr xs) fallback'"
  by (simp add: normalizeSiteList_def)

lemma default_lists_valid:
  "list_all isValidHostname DEFAULT_DISTRACTING_SITES"
  "list_all isValidHostname DEFAULT_DEEPWORK_BLOCKED_SITES"
  by code_simp+

lemma default_lists_distinct:
  "distinct DEFAULT_DISTRACTING_SITES" "distinct DEFAULT_DEEPWORK_BLOCKED_SITES"
  by code_simp+

lemma default_lists_normalized:
  "h \<in> set DEFAULT_DISTRACTING_SITES \<union> set DEFAULT_DEEPWORK_BLOCKED_SITES
   \<Longrightarrow> isNormalizedHostname h"
  using default_lists_valid by (auto simp: list_all_iff intro: validHostname_normalized)

lemma getDefaultState_siteLists:
  "getProp getDefaultState ''distractingSites'' = jsStrArr DEFAULT_DISTRACTING_SITES"
  "getProp getDefaultState ''deepWorkBlockedSites'' = jsStrArr DEFAULT_DEEPWORK_BLOCKED_SITES"
  by (simp_all add: getDefaultState_def DEFAULT_STATE_def getProp_def)

lemma normalizeSiteList_Atom: "normalizeSiteList (Atom x) fallback = fallback"
  by (simp add: normalizeSiteList_def)

text \<open>
  C4 (as the code has it). For an array \<open>xs\<close>, normalization returns an array of strings
  \<open>ys\<close>, whatever the fallback: every entry is lowercase, matches \<open>^[a-z0-9.-]+$\<close>, holds a
  dot, has no leading, trailing or doubled dot, has at most 253 characters and no scheme,
  path, query or fragment; it comes from an entry of \<open>xs\<close>, other entries being dropped;
  there are no duplicates, the result is sorted and holds at most 200 entries. One
  leading \<open>www.\<close> is removed: an entry begins with \<open>www.\<close> only when the input repeated the
  label. \<open>sanitizeStoredState\<close> and \<open>computeNextState\<close> store exactly this array under
  \<open>distractingSites\<close> and \<open>deepWorkBlockedSites\<close>. A value that is not an array is not
  normalized: the list is then the default one, or the current one, as it is; the
  default lists hold normalized hostnames without duplicates. The two examples of the
  claim hold.
\<close>

theorem site_list_normalization:
  "(\<exists>ys. normalizeSiteList (JArr xs) fallback = jsStrArr ys \<and> normalizedSiteList xs ys)
   \<and> (isSiteListKey k \<and> getProp (objectOrEmpty a) k = JArr xs
        \<longrightarrow> getProp (sanitizeStoredState a) k = normalizeSiteList (JArr xs) fallback)
   \<and> (isSiteListKey k \<and> u k = Some (JArr xs)
        \<longrightarrow> getProp (computeNextState c (Obj u)) k = normalizeSiteList (JArr xs) fallback)
   \<and> (isSiteListKey k \<and> getProp (objectOrEmpty a) k = Atom x
        \<longrightarrow> getProp (sanitizeStoredState a) k = getProp getDefaultState k)
   \<and> (isSiteListKey k \<and> u k = Some (Atom x)
        \<longrightarrow> getProp (computeNextState c (Obj u)) k = getProp (currentOf c) k)
   \<and> (h \<in> set DEFAULT_DISTRACTING_SITES \<union> set DEFAULT_DEEPWORK_BLOCKED_SITES
        \<longrightarrow> isNormalizedHostname h)
   \<and> distinct DEFAULT_DISTRACTING_SITES \<and> distinct DEFAULT_DEEPWORK_BLOCKED_SITES
   \<and> normalizeSiteList (JArr [JStr ''https://WWW.Example.com/path?x=1'', JStr ''not a host''])
         fallback
       = jsStrArr [''example.com'']"
proof -
  have 1: "\<exists>ys. normalizeSiteList (JArr xs) fallback = jsStrArr ys \<and> normalizedSiteList xs ys"
    by (rule normalizeSiteList_props)
  have 2: "isSiteListKey k \<and> getProp (objectOrEmpty a) k = JArr xs
        \<longrightarrow> getProp (sanitizeStoredState a) k = normalizeSiteList (JArr xs) fallback"
    using normalizeSiteList_fallback_free [of xs "getProp getDefaultState k" fallback]
    by (simp add: sanitizeStoredState_siteList)
  have 3: "isSiteListKey k \<and> u k = Some (JArr xs)
        \<longrightarrow> getProp (computeNextState c (Obj u)) k = normalizeSiteList (JArr xs) fallback"
    using normalizeSiteList_fallback_free [of xs "getProp (currentOf c) k" fallback]
    by (simp add: computeNextState_siteList)
  have "normalizeSiteList (JArr [JStr ''https://WWW.Example.com/path?x=1'', JStr ''not a host''])
         jsNull = jsStrArr [''example.com'']"
    by code_simp
  then have 4: "normalizeSiteList (JArr [JStr ''https://WWW.Example.com/path?x=1'', JStr ''not a host''])
         fallback = jsStrArr [''example.com'']"
    using normalizeSiteList_fallback_free by metis
  have 5: "isSiteListKey k \<and> getProp (objectOrEmpty a) k = Atom x
        \<longrightarrow> getProp (sanitizeStoredState a) k = getProp getDefaultState k"
    by (simp add: sanitizeStoredState_siteList normalizeSiteList_Atom)
  have 6: "isSiteListKey k \<and> u k = Some (Atom x)
        \<longrightarrow> getProp (computeNextState c (Obj u)) k = getProp (currentOf c) k"
    by (simp add: computeNextState_siteList normalizeSiteList_Atom)
  have 7: "h \<in> set DEFAULT_DISTRACTING_SITES \<union> set DEFAULT_DEEPWORK_BLOCKED_SITES
        \<longrightarrow> isNormalizedHostname h"
    using default_lists_normalized by blast
  show ?thesis using 1 2 3 4 5 6 7 default_lists_distinct by blast
qed

theorem site_list_normalization_witness:
  "isSiteListKey ''distractingSites''
   \<and> getProp (objectOrEmpty (Obj sitesPatch)) ''distractingSites'' = JArr rawSites
   \<and> sitesPatch ''distractingSites'' = Some (JArr rawSites)
   \<and> normalizedSiteList rawSites [''b.com'', ''example.com'']
   \<and> getProp (sanitizeStoredState (Obj sitesPatch)) ''distractingSites''
       = jsStrArr [''b.com'', ''example.com'']
   \<and> getProp (computeNextState NotObj (Obj sitesPatch)) ''distractingSites''
       = jsStrArr [''b.com'', ''example.com'']
   \<and> ''x.com'' \<in> set DEFAULT_DISTRACTING_SITES \<union> set DEFAULT_DEEPWORK_BLOCKED_SITES
   \<and> isNormalizedHostname ''x.com''"
proof -
  have h1: "isSiteListKey ''distractingSites''"
    by (simp add: isSiteListKey_def)
  have h2: "getProp (objectOrEmpty (Obj sitesPatch)) ''distractingSites'' = JArr rawSites"
    by (simp add: objectOrEmpty_def sitesPatch_def)
  have h3: "sitesPatch ''distractingSites'' = Some (JArr rawSites)"
    by (simp add: sitesPatch_def)
  have h4: "''x.com'' \<in> set DEFAULT_DISTRACTING_SITES \<union> set DEFAULT_DEEPWORK_BLOCKED_SITES"
    by (simp add: DEFAULT_DISTRACTING_SITES_def)
  have v: "normalizeSiteList (JArr rawSites) jsNull = jsStrArr [''b.com'', ''example.com'']"
    by code_simp
  from site_list_normalization
    [of rawSites jsNull "''distractingSites''" "Obj sitesPatch" sitesPatch NotObj _ "''x.com''"]
  obtain ys where ys: "normalizeSiteList (JArr rawSites) jsNull = jsStrArr ys"
      "normalizedSiteList rawSites ys"
    and s: "getProp (sanitizeStoredState (Obj sitesPatch)) ''distractingSites''
       = normalizeSiteList (JArr rawSites) jsNull"
    and c: "getProp (computeNextState NotObj (Obj sitesPatch)) ''distractingSites''
       = normalizeSiteList (JArr rawSites) jsNull"
    and d: "isNormalizedHostname ''x.com''"
    using h1 h2 h3 h4 by blast
  from ys(1) v have "map JStr ys = map JStr [''b.com'', ''example.com'']" by simp
  moreover have "inj JStr" by (simp add: inj_on_def)
  ultimately have "ys = [''b.com'', ''example.com'']"
    by (simp only: inj_map_eq_map)
  with ys(2) s c d v h1 h2 h3 h4 show ?thesis by simp
qed

text \<open>
  C4 as stated fails twice. The input \<open>www.www.example.com\<close> is valid and is stored as
  \<open>www.example.com\<close>, an entry that begins with \<open>www.\<close>. And \<open>sanitizeStoredState\<close> on a
  store without site lists returns the default \<open>distractingSites\<close>, which is not sorted.
\<close>

theorem site_list_counterexample:
  "normalizeSiteList (JArr [JStr ''www.www.example.com'']) jsNull = jsStrArr [''www.example.com'']
   \<and> prefix ''www.'' ''www.example.com''
   \<and> getProp (sanitizeStoredState (Obj [''distractingSites'' \<mapsto> JArr [JStr ''www.www.example.com'']]))
         ''distractingSites''
       = jsStrArr [''www.example.com'']
   \<and> getProp (sanitizeStoredState NotObj) ''distractingSites'' = jsStrArr DEFAULT_DISTRACTING_SITES
   \<and> \<not> sorted DEFAULT_DISTRACTING_SITES"
proof -
  have 1: "normalizeSiteList (JArr [JStr ''www.www.example.com'']) jsNull = jsStrArr [''www.example.com'']"
    by code_simp
  have 2: "prefix ''www.'' ''www.example.com''"
    by simp
  have "getProp (sanitizeStoredState (Obj [''distractingSites'' \<mapsto> JArr [JStr ''www.www.example.com'']]))
         ''distractingSites''
       = normalizeSiteList (JArr [JStr ''www.www.example.com'']) (getProp getDefaultState ''distractingSites'')"
    by (simp add: sanitizeStoredState_siteList isSiteListKey_def objectOrEmpty_def)
  also have "\<dots> = normalizeSiteList (JArr [JStr ''www.www.example.com'']) jsNull"
    by (rule normalizeSiteList_fallback_free)
  finally have 3: "getProp (sanitizeStoredState (Obj [''distractingSites'' \<mapsto> JArr [JStr ''www.www.example.com'']]))
         ''distractingSites''
       = jsStrArr [''www.example.com'']"
    using 1 by simp
  have 4: "getProp (sanitizeStoredState NotObj) ''distractingSites'' = jsStrArr DEFAULT_DISTRACTING_SITES"
    by (simp add: sanitizeStoredState_siteList isSiteListKey_def objectOrEmpty_def getProp_None
          normalizeSiteList_Atom getDefaultState_siteLists)
  have 5: "\<not> sorted DEFAULT_DISTRACTING_SITES"
    by code_simp
  show ?thesis using 1 2 3 4 5 by blast
qed

section \<open>Claims about the message handlers\<close>

lemma filterPayloadKeys_restrict:
  "filterPayloadKeys (Obj p) allowed = p |` set allowed"
  by (rule ext) (simp add: filterPayloadKeys_def restrict_map_def)

text \<open>The three outcomes of one mutation with an object patch.\<close>

lemma updateState_unchanged:
  assumes "diffState (Obj (state rt)) (Obj (computeNextState (Obj (state rt)) (Obj u))) = Map.empty"
  shows "updateState storageSet rt (Obj u) = (True, rt)"
  using assms by (simp add: updateState_def Let_def)

lemma updateState_stored:
  assumes "diffState (Obj (state rt)) (Obj (computeNextState (Obj (state rt)) (Obj u))) \<noteq> Map.empty"
    and "storageSet (storage rt)
           (diffState (Obj (state rt)) (Obj (computeNextState (Obj (state rt)) (Obj u)))) = Some store"
  shows "updateState storageSet rt (Obj u) =
           (True, rt\<lparr>state := computeNextState (Obj (state rt)) (Obj u),
                      storage := store,
                      broadcasts := broadcasts rt
                        @ [diffState (Obj (state rt)) (Obj (computeNextState (Obj (state rt)) (Obj u)))]\<rparr>)"
  using assms by (simp add: updateState_def Let_def)

lemma updateState_throws:
  assumes "diffState (Obj (state rt)) (Obj (computeNextState (Obj (state rt)) (Obj u))) \<noteq> Map.empty"
    and "storageSet (storage rt)
           (diffState (Obj (state rt)) (Obj (computeNextState (Obj (state rt)) (Obj u)))) = None"
  shows "updateState storageSet rt (Obj u) =
           (False, rt\<lparr>state := computeNextState (Obj (state rt)) (Obj u)\<rparr>)"
  using assms by (simp add: updateState_def Let_def)

lemma handleUpdateState_trusted:
  assumes "isTrustedExtensionSender runtimeId sndr"
  shows "handleUpdateStateMessage storageSet runtimeId rt sndr (Obj p) =
           (if p |` set UI_ALLOWED_UPDATE_KEYS = Map.empty
            then (Reply False (Some ''No valid keys''), rt)
            else (Reply (fst (updateState storageSet rt (Obj (p |` set UI_ALLOWED_UPDATE_KEYS)))) None,
                  snd (updateState storageSet rt (Obj (p |` set UI_ALLOWED_UPDATE_KEYS)))))"
  using assms
  by (simp add: handleUpdateStateMessage_def filterPayloadKeys_restrict Let_def split_beta)

text \<open>
  C6 (as the code has it). The UI write allowlist is exactly the session fields, the two
  site lists and the enable flags: nine schema keys, none of them timer-internal. An
  \<open>updateState\<close> message whose payload is not an object is answered \<open>Invalid payload\<close>
  whoever the sender; an object payload from a sender that is not a trusted extension
  page is answered \<open>Forbidden\<close>; both leave the runtime unchanged. From a trusted sender
  the handler behaves on an object payload as on the payload restricted to the
  allowlist, so two payloads that agree on the allowlisted keys are handled alike. When
  no allowlisted key remains it answers \<open>No valid keys\<close> with the runtime unchanged.
  Otherwise \<open>updateState\<close> runs on the restricted payload, which alone reaches
  \<open>computeNextState\<close>: when the delta is empty the answer is success and the runtime is
  unchanged; when the write calls back the answer is success, with the new state, the
  store the write left and one more broadcast; when the write throws the answer is
  \<open>{success: false}\<close> without an error text, the in-memory state having advanced already.
\<close>

theorem updateState_message_allowlist:
  "set UI_ALLOWED_UPDATE_KEYS = sessionFields \<union> siteListFields \<union> enableFlagFields
   \<and> set UI_ALLOWED_UPDATE_KEYS \<subseteq> set STATE_KEYS
   \<and> set UI_ALLOWED_UPDATE_KEYS \<inter> timerInternalKeys = {}
   \<and> handleUpdateStateMessage storageSet runtimeId rt sndr NotObj
        = (Reply False (Some ''Invalid payload''), rt)
   \<and> (\<not> isTrustedExtensionSender runtimeId sndr \<longrightarrow>
        handleUpdateStateMessage storageSet runtimeId rt sndr (Obj p)
          = (Reply False (Some ''Forbidden''), rt))
   \<and> (isTrustedExtensionSender runtimeId sndr \<longrightarrow>
        (let kept = p |` set UI_ALLOWED_UPDATE_KEYS;
             nextState = computeNextState (Obj (state rt)) (Obj kept);
             delta = diffState (Obj (state rt)) (Obj nextState);
             answer = handleUpdateStateMessage storageSet runtimeId rt sndr (Obj p)
         in answer = handleUpdateStateMessage storageSet runtimeId rt sndr (Obj kept)
            \<and> (q |` set UI_ALLOWED_UPDATE_KEYS = kept \<longrightarrow>
                  handleUpdateStateMessage storageSet runtimeId rt sndr (Obj q) = answer)
            \<and> (kept = Map.empty \<longrightarrow> answer = (Reply False (Some ''No valid keys''), rt))
            \<and> (kept \<noteq> Map.empty \<longrightarrow>
                  answer = (Reply (fst (updateState storageSet rt (Obj kept))) None,
                            snd (updateState storageSet rt (Obj kept)))
                  \<and> (delta = Map.empty \<longrightarrow> answer = (Reply True None, rt))
                  \<and> (delta \<noteq> Map.empty \<longrightarrow>
                        (case storageSet (storage rt) delta of
                           Some store \<Rightarrow>
                             answer = (Reply True None,
                                       rt\<lparr>state := nextState, storage := store,
                                          broadcasts := broadcasts rt @ [delta]\<rparr>)
                         | None \<Rightarrow>
                             answer = (Reply False None, rt\<lparr>state := nextState\<rparr>))))))"
proof -
  let ?UI = "set UI_ALLOWED_UPDATE_KEYS"
  let ?h = "handleUpdateStateMessage storageSet runtimeId rt sndr"
  let ?kept = "p |` ?UI"
  let ?next = "computeNextState (Obj (state rt)) (Obj ?kept)"
  let ?delta = "diffState (Obj (state rt)) (Obj ?next)"
  have 0: "?UI = sessionFields \<union> siteListFields \<union> enableFlagFields"
    by (auto simp: UI_ALLOWED_UPDATE_KEYS_def sessionFields_def siteListFields_def
          enableFlagFields_def)
  have 1: "?UI \<subseteq> set STATE_KEYS"
    by (simp add: UI_ALLOWED_UPDATE_KEYS_def STATE_KEYS_def DEFAULT_STATE_def)
  have 2: "?UI \<inter> timerInternalKeys = {}"
    by (simp add: UI_ALLOWED_UPDATE_KEYS_def timerInternalKeys_def)
  have 3: "?h NotObj = (Reply False (Some ''Invalid payload''), rt)"
    by (simp add: handleUpdateStateMessage_def)
  have 4: "\<not> isTrustedExtensionSender runtimeId sndr \<longrightarrow>
        ?h (Obj p) = (Reply False (Some ''Forbidden''), rt)"
    by (simp add: handleUpdateStateMessage_def)
  have 5: "?h (Obj p) = ?h (Obj ?kept)
      \<and> (q |` ?UI = ?kept \<longrightarrow> ?h (Obj q) = ?h (Obj p))
      \<and> (?kept = Map.empty \<longrightarrow> ?h (Obj p) = (Reply False (Some ''No valid keys''), rt))
      \<and> (?kept \<noteq> Map.empty \<longrightarrow>
            ?h (Obj p) = (Reply (fst (updateState storageSet rt (Obj ?kept))) None,
                          snd (updateState storageSet rt (Obj ?kept)))
            \<and> (?delta = Map.empty \<longrightarrow> ?h (Obj p) = (Reply True None, rt))
            \<and> (?delta \<noteq> Map.empty \<longrightarrow>
                  (case storageSet (storage rt) ?delta of
                     Some store \<Rightarrow>
                       ?h (Obj p) = (Reply True None,
                                     rt\<lparr>state := ?next, storage := store,
                                        broadcasts := broadcasts rt @ [?delta]\<rparr>)
                   | None \<Rightarrow> ?h (Obj p) = (Reply False None, rt\<lparr>state := ?next\<rparr>))))"
    if tr: "isTrustedExtensionSender runtimeId sndr"
  proof -
    have a: "?h (Obj p) = ?h (Obj ?kept)"
      by (simp add: handleUpdateState_trusted [OF tr])
    have b: "?h (Obj q) = ?h (Obj p)" if "q |` ?UI = ?kept"
      using that by (simp add: handleUpdateState_trusted [OF tr])
    have c: "?h (Obj p) = (Reply False (Some ''No valid keys''), rt)" if "?kept = Map.empty"
      using that by (simp add: handleUpdateState_trusted [OF tr])
    have d: "?h (Obj p) = (Reply (fst (updateState storageSet rt (Obj ?kept))) None,
                          snd (updateState storageSet rt (Obj ?kept)))"
      if "?kept \<noteq> Map.empty"
      using that by (simp add: handleUpdateState_trusted [OF tr])
    have e: "?h (Obj p) = (Reply True None, rt)" if "?kept \<noteq> Map.empty" "?delta = Map.empty"
      using d [OF that(1)] updateState_unchanged [OF that(2), of storageSet] by simp
    have f: "case storageSet (storage rt) ?delta of
                     Some store \<Rightarrow>
                       ?h (Obj p) = (Reply True None,
                                     rt\<lparr>state := ?next, storage := store,
                                        broadcasts := broadcasts rt @ [?delta]\<rparr>)
                   | None \<Rightarrow> ?h (Obj p) = (Reply False None, rt\<lparr>state := ?next\<rparr>)"
      if "?kept \<noteq> Map.empty" "?delta \<noteq> Map.empty"
    proof (cases "storageSet (storage rt) ?delta")
      case None
      with d [OF that(1)] that(2) show ?thesis by (simp add: updateState_def Let_def)
    next
      case (Some store)
      with d [OF that(1)] that(2) show ?thesis by (simp add: updateState_def Let_def)
    qed
    from a b c d e f show ?thesis by blast
  qed
  show ?thesis
    unfolding Let_def using 0 1 2 3 4 5 by blast
qed

lemma popupSender_trusted: "isTrustedExtensionSender (Some ''maizoneid'') popupSender"
  by (simp add: isTrustedExtensionSender_def popupSender_def)

lemma pageSender_untrusted: "\<not> isTrustedExtensionSender (Some ''maizoneid'') pageSender"
  by (simp add: isTrustedExtensionSender_def pageSender_def)

lemma taskAndTimerPayload_restrict:
  "taskAndTimerPayload |` set UI_ALLOWED_UPDATE_KEYS = [''currentTask'' \<mapsto> jsStr ''write report'']"
  by (rule ext) (simp add: restrict_map_def taskAndTimerPayload_def UI_ALLOWED_UPDATE_KEYS_def)

lemma timerOnlyPayload_restrict:
  "timerOnlyPayload |` set UI_ALLOWED_UPDATE_KEYS = Map.empty"
  by (rule ext) (simp add: restrict_map_def timerOnlyPayload_def UI_ALLOWED_UPDATE_KEYS_def)

lemma hydratedRuntime_state:
  "satisfiesInvariants (state hydratedRuntime)" "nanFree (state hydratedRuntime)"
  "getProp (state hydratedRuntime) ''currentTask'' = jsStr ''''"
  "getProp (state hydratedRuntime) ''exerciseIntervalMs'' = jsNumber 2700000"
proof -
  obtain m where m: "sanitizeStoredState NotObj = enforceStateValidity m"
    using sanitizeStoredState_enforce by blast
  show "satisfiesInvariants (state hydratedRuntime)"
    by (simp add: hydratedRuntime_def m satisfiesInvariants_enforce)
  show "nanFree (state hydratedRuntime)"
    by (simp add: hydratedRuntime_def nanFree_sanitizeStoredState)
  show "getProp (state hydratedRuntime) ''currentTask'' = jsStr ''''"
    by (simp add: hydratedRuntime_def sanitizeStoredState_def enforceStateInvariants_def Let_def
          getProp_enforce_task getProp_map_add fieldNormalizer_simps getDefaultState_simps
          getProp_None)
  show "getProp (state hydratedRuntime) ''exerciseIntervalMs'' = jsNumber 2700000"
    by (simp add: hydratedRuntime_def sanitizeStoredState_def enforceStateInvariants_def Let_def
          getProp_enforce_interval getProp_map_add fieldNormalizer_simps getDefaultState_simps
          EXERCISE_DEFAULT_INTERVAL_MS_def nullish_def getProp_None)
qed

lemma writeReport_task:
  "trim ''write report'' = ''write report''" "''write report'' \<noteq> []"
  "length ''write report'' \<le> MAX_TASK_LENGTH"
  by (simp_all add: trim_def isWhitespace_def MAX_TASK_LENGTH_def)

text \<open>
  Setting a non-empty task on a state that satisfies the invariants changes that field
  alone, and the delta is that field unless the task was that already.
\<close>

lemma satisfiesInvariants_task:
  assumes "satisfiesInvariants s" and "t \<noteq> []"
  shows "satisfiesInvariants (s(''currentTask'' \<mapsto> jsStr t))"
proof -
  let ?s = "s(''currentTask'' \<mapsto> jsStr t)"
  have flow: "\<not> inFlow s \<Longrightarrow> s ''isInFlow'' = Some (jsBool False)
            \<and> s ''breakReminderEnabled'' = Some (jsBool False)
            \<and> s ''reminderStartTime'' = Some jsNull
            \<and> s ''reminderInterval'' = Some jsNull
            \<and> s ''reminderExpectedEndTime'' = Some jsNull"
    and interval: "\<not> (truthy (getProp s ''exerciseReminderEnabled'') \<and> nullish (getProp s ''exerciseIntervalMs''))"
    and counter: "\<And>k. isCounterKey k \<Longrightarrow> s k \<noteq> None \<and> isNonNegativeNumber (getProp s k)"
    using assms(1) by (simp_all add: satisfiesInvariants_def)
  have 1: "?s ''currentTask'' \<noteq> None"
    by simp
  have 2: "truthy (getProp ?s ''currentTask'') \<or> getProp ?s ''currentTask'' = jsStr ''''"
    using assms(2) by simp
  have i: "inFlow s" if "inFlow ?s"
  proof (rule ccontr)
    assume "\<not> inFlow s"
    from flow [OF this] have "getProp s ''isInFlow'' = jsBool False"
      by (simp add: getProp_def)
    with that show False by (simp add: inFlow_def)
  qed
  have 3: "\<not> inFlow ?s \<longrightarrow>
            ?s ''isInFlow'' = Some (jsBool False)
            \<and> ?s ''breakReminderEnabled'' = Some (jsBool False)
            \<and> ?s ''reminderStartTime'' = Some jsNull
            \<and> ?s ''reminderInterval'' = Some jsNull
            \<and> ?s ''reminderExpectedEndTime'' = Some jsNull"
  proof
    assume n: "\<not> inFlow ?s"
    have "\<not> inFlow s"
      using n assms(2) by (simp add: inFlow_def)
    from flow [OF this] show "?s ''isInFlow'' = Some (jsBool False)
            \<and> ?s ''breakReminderEnabled'' = Some (jsBool False)
            \<and> ?s ''reminderStartTime'' = Some jsNull
            \<and> ?s ''reminderInterval'' = Some jsNull
            \<and> ?s ''reminderExpectedEndTime'' = Some jsNull"
      by simp
  qed
  have 4: "\<not> (truthy (getProp ?s ''exerciseReminderEnabled'') \<and> nullish (getProp ?s ''exerciseIntervalMs''))"
    using interval by simp
  have 5: "isCounterKey k \<longrightarrow> ?s k \<noteq> None \<and> isNonNegativeNumber (getProp ?s k)" for k
    using counter [of k] by (auto simp: isCounterKey_def)
  show ?thesis
    unfolding satisfiesInvariants_def using 1 2 3 4 5 by blast
qed

lemma computeNextState_task_eq:
  assumes inv: "satisfiesInvariants s"
    and t: "trim t = t" "t \<noteq> []" "length t \<le> MAX_TASK_LENGTH"
  shows "computeNextState (Obj s) (Obj [''currentTask'' \<mapsto> jsStr t]) = s(''currentTask'' \<mapsto> jsStr t)"
proof -
  have "s ++ sanitizeUpdates s [''currentTask'' \<mapsto> jsStr t] = s(''currentTask'' \<mapsto> jsStr t)"
    by (intro ext) (simp add: map_add_def sanitizeUpdates_def fieldNormalizer_simps t Let_def)
  then show ?thesis
    using satisfiesInvariants_task [OF inv t(2)]
    by (simp add: computeNextState_Obj currentOf_def satisfiesInvariants_fixed)
qed

lemma diffState_task:
  assumes "nanFree s" and "getProp s ''currentTask'' \<noteq> jsStr t"
  shows "diffState (Obj s) (Obj (s(''currentTask'' \<mapsto> jsStr t))) = [''currentTask'' \<mapsto> jsStr t]"
proof -
  have "nanFree (s(''currentTask'' \<mapsto> jsStr t))"
    using assms(1) by (auto simp: nanFree_def)
  then show ?thesis
    using assms(2)
    by (intro ext) (simp add: diffState_nanFree getProp_def split: option.splits)
qed

lemma hydrated_task_update:
  "computeNextState (Obj (state hydratedRuntime)) (Obj [''currentTask'' \<mapsto> jsStr ''write report''])
     = (state hydratedRuntime)(''currentTask'' \<mapsto> jsStr ''write report'')"
  "diffState (Obj (state hydratedRuntime))
     (Obj ((state hydratedRuntime)(''currentTask'' \<mapsto> jsStr ''write report'')))
     = [''currentTask'' \<mapsto> jsStr ''write report'']"
  using computeNextState_task_eq [OF hydratedRuntime_state(1) writeReport_task]
    diffState_task [OF hydratedRuntime_state(2), of "''write report''"] hydratedRuntime_state(3)
  by simp_all

theorem updateState_message_allowlist_witness:
  "isTrustedExtensionSender (Some ''maizoneid'') popupSender
   \<and> taskAndTimerPayload |` set UI_ALLOWED_UPDATE_KEYS = [''currentTask'' \<mapsto> jsStr ''write report'']
   \<and> timerOnlyPayload |` set UI_ALLOWED_UPDATE_KEYS = Map.empty
   \<and> handleUpdateStateMessage storageWrites (Some ''maizoneid'') hydratedRuntime popupSender
         (Obj taskAndTimerPayload)
       = handleUpdateStateMessage storageWrites (Some ''maizoneid'') hydratedRuntime popupSender
           (Obj [''currentTask'' \<mapsto> jsStr ''write report''])
   \<and> handleUpdateStateMessage storageWrites (Some ''maizoneid'') hydratedRuntime popupSender
         (Obj taskAndTimerPayload)
       = (Reply True None,
          hydratedRuntime
            \<lparr>state := (state hydratedRuntime)(''currentTask'' \<mapsto> jsStr ''write report''),
             storage := (storage hydratedRuntime)(''currentTask'' \<mapsto> jsStr ''write report''),
             broadcasts := [[''currentTask'' \<mapsto> jsStr ''write report'']]\<rparr>)
   \<and> getProp (state hydratedRuntime) ''exerciseIntervalMs'' = jsNumber 2700000
   \<and> handleUpdateStateMessage storageThrows (Some ''maizoneid'') hydratedRuntime popupSender
         (Obj taskAndTimerPayload)
       = (Reply False None,
          hydratedRuntime
            \<lparr>state := (state hydratedRuntime)(''currentTask'' \<mapsto> jsStr ''write report'')\<rparr>)
   \<and> handleUpdateStateMessage storageWrites (Some ''maizoneid'') hydratedRuntime popupSender
         (Obj timerOnlyPayload)
       = (Reply False (Some ''No valid keys''), hydratedRuntime)"
proof -
  let ?task = "[''currentTask'' \<mapsto> jsStr ''write report'']"
  have ne: "?task \<noteq> Map.empty"
    by (simp add: fun_eq_iff)
  have b0: "broadcasts hydratedRuntime @ [?task] = [?task]"
    by (simp add: hydratedRuntime_def)
  have sw: "storageWrites (storage hydratedRuntime) ?task
      = Some ((storage hydratedRuntime)(''currentTask'' \<mapsto> jsStr ''write report''))"
    by (simp add: storageWrites_def)
  have st: "storageThrows (storage hydratedRuntime) ?task = None"
    by (simp add: storageThrows_def)
  from updateState_message_allowlist
    [where storageSet = storageWrites and runtimeId = "Some ''maizoneid''"
       and rt = hydratedRuntime and sndr = popupSender and p = taskAndTimerPayload
       and q = ?task,
     unfolded Let_def taskAndTimerPayload_restrict hydrated_task_update sw option.case b0]
    popupSender_trusted ne
  have a: "handleUpdateStateMessage storageWrites (Some ''maizoneid'') hydratedRuntime popupSender
         (Obj taskAndTimerPayload)
       = handleUpdateStateMessage storageWrites (Some ''maizoneid'') hydratedRuntime popupSender
           (Obj ?task)"
    and b: "handleUpdateStateMessage storageWrites (Some ''maizoneid'') hydratedRuntime popupSender
         (Obj taskAndTimerPayload)
       = (Reply True None,
          hydratedRuntime
            \<lparr>state := (state hydratedRuntime)(''currentTask'' \<mapsto> jsStr ''write report''),
             storage := (storage hydratedRuntime)(''currentTask'' \<mapsto> jsStr ''write report''),
             broadcasts := [?task]\<rparr>)"
    by blast+
  from updateState_message_allowlist
    [where storageSet = storageThrows and runtimeId = "Some ''maizoneid''"
       and rt = hydratedRuntime and sndr = popupSender and p = taskAndTimerPayload
       and q = ?task,
     unfolded Let_def taskAndTimerPayload_restrict hydrated_task_update st option.case]
    popupSender_trusted ne
  have c: "handleUpdateStateMessage storageThrows (Some ''maizoneid'') hydratedRuntime popupSender
         (Obj taskAndTimerPayload)
       = (Reply False None,
          hydratedRuntime
            \<lparr>state := (state hydratedRuntime)(''currentTask'' \<mapsto> jsStr ''write report'')\<rparr>)"
    by blast
  from updateState_message_allowlist
    [where storageSet = storageWrites and runtimeId = "Some ''maizoneid''"
       and rt = hydratedRuntime and sndr = popupSender and p = timerOnlyPayload
       and q = timerOnlyPayload,
     unfolded Let_def timerOnlyPayload_restrict]
    popupSender_trusted
  have d: "handleUpdateStateMessage storageWrites (Some ''maizoneid'') hydratedRuntime popupSender
         (Obj timerOnlyPayload)
       = (Reply False (Some ''No valid keys''), hydratedRuntime)"
    by blast
  show ?thesis
    using popupSender_trusted taskAndTimerPayload_restrict timerOnlyPayload_restrict
      hydratedRuntime_state(4) a b c d
    by blast
qed

text \<open>
  C6 as stated fails for a sender that is not a trusted extension page: the payload
  holds the allowlisted key \<open>currentTask\<close>, yet the request does not proceed and the
  answer is \<open>Forbidden\<close>. A payload that is not an object holds no key at all and is
  answered \<open>Invalid payload\<close>, not \<open>No valid keys\<close>, from a trusted sender and from any
  other alike.
\<close>

theorem updateState_message_counterexample:
  "\<not> isTrustedExtensionSender (Some ''maizoneid'') pageSender
   \<and> taskAndTimerPayload ''currentTask'' = Some (jsStr ''write report'')
   \<and> ''currentTask'' \<in> set UI_ALLOWED_UPDATE_KEYS
   \<and> handleUpdateStateMessage storageWrites (Some ''maizoneid'') hydratedRuntime pageSender
         (Obj taskAndTimerPayload)
       = (Reply False (Some ''Forbidden''), hydratedRuntime)
   \<and> handleUpdateStateMessage storageWrites (Some ''maizoneid'') hydratedRuntime popupSender NotObj
       = (Reply False (Some ''Invalid payload''), hydratedRuntime)
   \<and> handleUpdateStateMessage storageWrites (Some ''maizoneid'') hydratedRuntime pageSender NotObj
       = (Reply False (Some ''Invalid payload''), hydratedRuntime)"
  using pageSender_untrusted
  by (simp add: handleUpdateStateMessage_def taskAndTimerPayload_def UI_ALLOWED_UPDATE_KEYS_def)

text \<open>
  C7. The reply to a \<open>getState\<close> request from a sender that is not a trusted extension
  page holds no field but \<open>isInFlow\<close>, whatever \<open>keys\<close> and \<open>key\<close> the request names, and it
  is the same for any two runtimes whose states agree on \<open>isInFlow\<close>: nothing else of the
  state reaches the reply.
\<close>

theorem untrusted_getState_minimal:
  "\<not> isTrustedExtensionSender runtimeId sndr \<longrightarrow>
     dom (handleGetStateMessage runtimeId rt sndr keys key) \<subseteq> {''isInFlow''}
     \<and> (getProp (state rt) ''isInFlow'' = getProp (state rt') ''isInFlow'' \<longrightarrow>
          handleGetStateMessage runtimeId rt sndr keys key
            = handleGetStateMessage runtimeId rt' sndr keys key)"
proof
  assume u: "\<not> isTrustedExtensionSender runtimeId sndr"
  have shape: "handleGetStateMessage runtimeId r sndr keys key =
      untrustedReply keys key (getProp (state r) ''isInFlow'')" for r
    using u
    by (auto simp: handleGetStateMessage_def untrustedReply_def UNTRUSTED_STATE_KEYS_def Let_def
          fun_eq_iff split: jsval.splits jsatom.splits)
  have "dom (untrustedReply keys key flow) \<subseteq> {''isInFlow''}" for flow
    by (auto simp: untrustedReply_def split: jsval.splits jsatom.splits if_splits)
  then have "dom (handleGetStateMessage runtimeId rt sndr keys key) \<subseteq> {''isInFlow''}"
    by (simp only: shape)
  moreover have "handleGetStateMessage runtimeId rt sndr keys key
            = handleGetStateMessage runtimeId rt' sndr keys key"
    if "getProp (state rt) ''isInFlow'' = getProp (state rt') ''isInFlow''"
    by (simp only: shape that)
  ultimately show "dom (handleGetStateMessage runtimeId rt sndr keys key) \<subseteq> {''isInFlow''}
     \<and> (getProp (state rt) ''isInFlow'' = getProp (state rt') ''isInFlow'' \<longrightarrow>
          handleGetStateMessage runtimeId rt sndr keys key
            = handleGetStateMessage runtimeId rt' sndr keys key)"
    by blast
qed

theorem untrusted_getState_minimal_witness:
  "\<not> isTrustedExtensionSender (Some ''maizoneid'') pageSender
   \<and> dom (handleGetStateMessage (Some ''maizoneid'') freshRuntime pageSender
            (JArr [JStr ''currentTask'', JStr ''distractingSites'', JStr ''isInFlow'']) jsUndefined)
       \<subseteq> {''isInFlow''}
   \<and> handleGetStateMessage (Some ''maizoneid'') freshRuntime pageSender
        (JArr [JStr ''currentTask'', JStr ''distractingSites'', JStr ''isInFlow'']) jsUndefined
       = handleGetStateMessage (Some ''maizoneid'') (freshRuntime\<lparr>state := inFlowWithoutTask(''isInFlow'' \<mapsto> jsBool False, ''currentTask'' \<mapsto> jsStr ''secret'')\<rparr>) pageSender
        (JArr [JStr ''currentTask'', JStr ''distractingSites'', JStr ''isInFlow'']) jsUndefined"
proof -
  have h: "getProp (state freshRuntime) ''isInFlow''
      = getProp (state (freshRuntime\<lparr>state := inFlowWithoutTask(''isInFlow'' \<mapsto> jsBool False, ''currentTask'' \<mapsto> jsStr ''secret'')\<rparr>)) ''isInFlow''"
    by (simp add: freshRuntime_def getDefaultState_simps)
  from untrusted_getState_minimal
    [of "Some ''maizoneid''" pageSender freshRuntime
      "JArr [JStr ''currentTask'', JStr ''distractingSites'', JStr ''isInFlow'']" jsUndefined
      "freshRuntime\<lparr>state := inFlowWithoutTask(''isInFlow'' \<mapsto> jsBool False, ''currentTask'' \<mapsto> jsStr ''secret'')\<rparr>"]
  show ?thesis using pageSender_untrusted h by blast
qed


section \<open>Claim about the intent gate\<close>















section \<open>Two mutations in the order of the chain\<close>

text \<open>
  The promise chain runs one mutation after the other. Run in that order on a state
  that satisfies the invariants and holds no \<open>NaN\<close>, the patches \<open>{currentTask: "A"}\<close> and
  \<open>{currentTask: "B"}\<close> leave the task \<open>B\<close>, whether or not the store takes the writes;
  with a store whose writes do not throw, each mutation that changes the state
  broadcasts one delta, so there are two broadcasts unless the task was \<open>A\<close> already.
\<close>

lemma updateState_task:
  assumes inv: "satisfiesInvariants (state rt)" and nf: "nanFree (state rt)"
    and t: "trim t = t" "t \<noteq> []" "length t \<le> MAX_TASK_LENGTH"
  shows "state (snd (updateState storageSet rt (Obj [''currentTask'' \<mapsto> jsStr t])))
           = (state rt)(''currentTask'' \<mapsto> jsStr t)"
    and "(\<And>store items. storageSet store items \<noteq> None) \<Longrightarrow>
         length (broadcasts (snd (updateState storageSet rt (Obj [''currentTask'' \<mapsto> jsStr t]))))
             = length (broadcasts rt)
               + (if getProp (state rt) ''currentTask'' = jsStr t then 0 else 1)"
proof -
  let ?u = "[''currentTask'' \<mapsto> jsStr t]"
  let ?s = "state rt"
  let ?next = "?s(''currentTask'' \<mapsto> jsStr t)"
  let ?delta = "diffState (Obj ?s) (Obj ?next)"
  note nx = computeNextState_task_eq [OF inv t]
  have same: "?delta = Map.empty" "?next = ?s" if "getProp ?s ''currentTask'' = jsStr t"
  proof -
    have "?s ''currentTask'' \<noteq> None"
      using inv by (simp add: satisfiesInvariants_def)
    with that have "?s ''currentTask'' = Some (jsStr t)"
      by (auto simp: getProp_def)
    then show "?next = ?s"
      by (intro ext) simp
    then show "?delta = Map.empty"
      using nf by (simp add: diffState_self)
  qed
  have differs: "?delta \<noteq> Map.empty" if "getProp ?s ''currentTask'' \<noteq> jsStr t"
    using diffState_task [OF nf that] by (simp add: fun_eq_iff)
  show "state (snd (updateState storageSet rt (Obj ?u))) = ?next"
  proof (cases "getProp ?s ''currentTask'' = jsStr t")
    case True
    from same [OF True] have "updateState storageSet rt (Obj ?u) = (True, rt)"
      by (simp add: updateState_def nx Let_def)
    with same [OF True] show ?thesis by simp
  next
    case False
    with differs show ?thesis by (simp add: updateState_def nx Let_def split: option.splits)
  qed
  show "length (broadcasts (snd (updateState storageSet rt (Obj ?u))))
             = length (broadcasts rt)
               + (if getProp ?s ''currentTask'' = jsStr t then 0 else 1)"
    if w: "\<And>store items. storageSet store items \<noteq> None"
  proof (cases "getProp ?s ''currentTask'' = jsStr t")
    case True
    from same [OF True] have "updateState storageSet rt (Obj ?u) = (True, rt)"
      by (simp add: updateState_def nx Let_def)
    with True show ?thesis by simp
  next
    case False
    obtain store where "storageSet (storage rt) ?delta = Some store"
      using w [of "storage rt" ?delta] by blast
    with False differs show ?thesis by (simp add: updateState_def nx Let_def)
  qed
qed

lemma sequential_task_updates:
  assumes "satisfiesInvariants (state rt)" and "nanFree (state rt)"
  shows "getProp (state (snd (updateState storageSet (snd (updateState storageSet rt (Obj taskA)))
                                (Obj taskB))))
            ''currentTask'' = jsStr ''B''"
    and "(\<And>store items. storageSet store items \<noteq> None) \<Longrightarrow>
         length (broadcasts (snd (updateState storageSet (snd (updateState storageSet rt (Obj taskA)))
                                    (Obj taskB))))
             = length (broadcasts rt)
               + (if getProp (state rt) ''currentTask'' = jsStr ''A'' then 1 else 2)"
proof -
  have a: "trim ''A'' = ''A''" "''A'' \<noteq> []" "length ''A'' \<le> MAX_TASK_LENGTH"
    and b: "trim ''B'' = ''B''" "''B'' \<noteq> []" "length ''B'' \<le> MAX_TASK_LENGTH"
    by (simp_all add: trim_def isWhitespace_def MAX_TASK_LENGTH_def)
  let ?rt1 = "snd (updateState storageSet rt (Obj taskA))"
  have s1: "state ?rt1 = (state rt)(''currentTask'' \<mapsto> jsStr ''A'')"
    unfolding taskA_def by (rule updateState_task(1) [OF assms a])
  have inv1: "satisfiesInvariants (state ?rt1)"
    unfolding s1 by (rule satisfiesInvariants_task [OF assms(1) a(2)])
  have nf1: "nanFree (state ?rt1)"
    unfolding s1 using assms(2) by (auto simp: nanFree_def)
  show "getProp (state (snd (updateState storageSet ?rt1 (Obj taskB)))) ''currentTask'' = jsStr ''B''"
    unfolding taskB_def by (simp add: updateState_task(1) [OF inv1 nf1 b])
  show "length (broadcasts (snd (updateState storageSet ?rt1 (Obj taskB))))
             = length (broadcasts rt)
               + (if getProp (state rt) ''currentTask'' = jsStr ''A'' then 1 else 2)"
    if w: "\<And>store items. storageSet store items \<noteq> None"
  proof -
    have 1: "length (broadcasts ?rt1) = length (broadcasts rt)
         + (if getProp (state rt) ''currentTask'' = jsStr ''A'' then 0 else 1)"
      unfolding taskA_def by (rule updateState_task(2) [OF assms a w])
    have 2: "length (broadcasts (snd (updateState storageSet ?rt1 (Obj taskB))))
        = length (broadcasts ?rt1) + (if getProp (state ?rt1) ''currentTask'' = jsStr ''B'' then 0 else 1)"
      unfolding taskB_def by (rule updateState_task(2) [OF inv1 nf1 b w])
    have 3: "getProp (state ?rt1) ''currentTask'' = jsStr ''A''"
      by (simp add: s1)
    show ?thesis
      using 1 2 3 by simp
  qed
qed

end
